theory Spec2Isabelle
  imports Complex_Main
begin

section \<open>JavaScript numbers and strings\<close>

text \<open>
  Finite JavaScript numbers are idealised as reals in the geometry of the seek bar, in
  the clock and in the seeks; the rounding of IEEE doubles is modelled where a result
  depends on it, in the time formatter. The three non-finite values are kept apart,
  because the player's arithmetic reaches them through divisions by a zero width and
  through an unknown duration (\<open>NaN\<close>).
\<close>

datatype jsnum = Num real | NaN | PosInf | NegInf

fun js_neg :: "jsnum \<Rightarrow> jsnum" where
  "js_neg (Num a) = Num (- a)"
| "js_neg NaN = NaN"
| "js_neg PosInf = NegInf"
| "js_neg NegInf = PosInf"

text \<open>An infinity scaled by the sign of a finite factor.\<close>

definition inf_signed :: "jsnum \<Rightarrow> real \<Rightarrow> jsnum" where
  "inf_signed i b = (if b > 0 then i else if b < 0 then js_neg i else NaN)"

fun js_mul :: "jsnum \<Rightarrow> jsnum \<Rightarrow> jsnum" where
  "js_mul NaN _ = NaN"
| "js_mul _ NaN = NaN"
| "js_mul (Num a) (Num b) = Num (a * b)"
| "js_mul (Num a) PosInf = inf_signed PosInf a"
| "js_mul (Num a) NegInf = inf_signed NegInf a"
| "js_mul PosInf (Num b) = inf_signed PosInf b"
| "js_mul NegInf (Num b) = inf_signed NegInf b"
| "js_mul PosInf PosInf = PosInf"
| "js_mul PosInf NegInf = NegInf"
| "js_mul NegInf PosInf = NegInf"
| "js_mul NegInf NegInf = PosInf"

text \<open>
  Division. The zero divisors of the player are widths of layout boxes, which are
  positive zeros: \<open>a / 0\<close> is \<open>Infinity\<close>, \<open>-Infinity\<close> or \<open>NaN\<close> by the sign of \<open>a\<close>.
\<close>

fun js_div :: "jsnum \<Rightarrow> jsnum \<Rightarrow> jsnum" where
  "js_div NaN _ = NaN"
| "js_div _ NaN = NaN"
| "js_div (Num a) (Num b) =
     (if b \<noteq> 0 then Num (a / b)
      else if a > 0 then PosInf else if a < 0 then NegInf else NaN)"
| "js_div (Num a) PosInf = Num 0"
| "js_div (Num a) NegInf = Num 0"
| "js_div PosInf (Num b) = (if b < 0 then NegInf else PosInf)"
| "js_div NegInf (Num b) = (if b < 0 then PosInf else NegInf)"
| "js_div PosInf PosInf = NaN"
| "js_div PosInf NegInf = NaN"
| "js_div NegInf PosInf = NaN"
| "js_div NegInf NegInf = NaN"

text \<open>The comparison \<open>a >= b\<close>: false as soon as one side is \<open>NaN\<close>.\<close>

fun js_ge :: "jsnum \<Rightarrow> jsnum \<Rightarrow> bool" where
  "js_ge NaN _ = False"
| "js_ge _ NaN = False"
| "js_ge (Num a) (Num b) = (a \<ge> b)"
| "js_ge PosInf _ = True"
| "js_ge _ NegInf = True"
| "js_ge (Num a) PosInf = False"
| "js_ge NegInf (Num b) = False"
| "js_ge NegInf PosInf = False"

definition js_le :: "jsnum \<Rightarrow> jsnum \<Rightarrow> bool" where
  "js_le a b = js_ge b a"

text \<open>\<open>ToNumber\<close> of a variable that may still be \<open>undefined\<close> (\<open>None\<close>).\<close>

definition ToNumber :: "jsnum option \<Rightarrow> jsnum" where
  "ToNumber v = (case v of None \<Rightarrow> NaN | Some n \<Rightarrow> n)"

text \<open>\<open>String(n)\<close> for an integer-valued number, in decimal.\<close>

definition digit_char :: "nat \<Rightarrow> char" where
  "digit_char d = ''0123456789'' ! d"

fun digits :: "nat \<Rightarrow> string" where
  "digits n = (if n < 10 then [digit_char n] else digits (n div 10) @ [digit_char (n mod 10)])"

declare digits.simps [simp del]

definition String_of :: "int \<Rightarrow> string" where
  "String_of n = (if n < 0 then CHR ''-'' # digits (nat (- n)) else digits (nat n))"

text \<open>\<open>s.padStart(n, c)\<close> with a one-character filler: pads on the left, never truncates.\<close>

definition padStart :: "nat \<Rightarrow> char \<Rightarrow> string \<Rightarrow> string" where
  "padStart n c s = replicate (n - length s) c @ s"

section \<open>Helpers of the player\<close>

text \<open>\<open>function clamp(min, n, max) { return Math.min(Math.max(n, min), max) }\<close>\<close>

definition clamp :: "real \<Rightarrow> real \<Rightarrow> real \<Rightarrow> real" where
  "clamp mn n mx = min (max n mn) mx"

subsection \<open>Double-precision arithmetic\<close>

text \<open>
  A JavaScript number is an IEEE 754 double: a sign, a 53-bit significand and a binary
  exponent. Every \<open>*\<close>, \<open>/\<close> and \<open>-\<close> returns the exact result rounded to the nearest
  double, ties to the even significand. \<open>bits n\<close> is the length of \<open>n\<close> in binary and
  \<open>binade x\<close>, for \<open>x > 0\<close>, the exponent \<open>e\<close> with \<open>2^e \<le> x < 2^(e+1)\<close>; the doubles of
  that binade are the multiples of \<open>ulp x = 2^(e-52)\<close>, and \<open>to_double\<close> rounds onto them.
  A number is a double when \<open>to_double\<close> leaves it unchanged.

  The exponent is left unbounded. Overflow (from \<open>2^1024\<close>) and the coarser grid of the
  subnormal numbers (below \<open>2^-1022\<close>) are therefore not modelled: no value rounded in
  the theorems below reaches the first, and the second only replaces a quotient below
  \<open>2^-1022\<close> by another number of \<open>[0, 1)\<close>, whose floor is the same.
\<close>

fun bits :: "nat \<Rightarrow> nat" where
  "bits n = (if n = 0 then 0 else Suc (bits (n div 2)))"

declare bits.simps [simp del]

definition binade :: "real \<Rightarrow> int" where
  "binade x = (if 1 \<le> x then int (bits (nat \<lfloor>x\<rfloor>)) - 1
               else - int (bits (nat (\<lceil>1 / x\<rceil> - 1))))"

definition ulp :: "real \<Rightarrow> real" where
  "ulp x = 2 powi (binade x - 52)"

definition round_half_even :: "real \<Rightarrow> int" where
  "round_half_even q =
     (let f = \<lfloor>q\<rfloor>
      in if q - of_int f < 1 / 2 then f
         else if q - of_int f > 1 / 2 then f + 1
         else if even f then f else f + 1)"

definition to_double :: "real \<Rightarrow> real" where
  "to_double x =
     (if x = 0 then 0
      else sgn x * (of_int (round_half_even (\<bar>x\<bar> / ulp \<bar>x\<bar>)) * ulp \<bar>x\<bar>))"

subsection \<open>The time formatter\<close>

text \<open>
  \<open>formatTime\<close>, the same text in every generation of the player. The argument is a
  double and each arithmetic result of the three \<open>const\<close> lines is rounded, in the order
  in which the source evaluates it: \<open>time - hours * 3600 - minutes * 60\<close> is
  \<open>(time - hours * 3600) - minutes * 60\<close>. \<open>Math.floor\<close> of a double is an integer-valued
  double, kept here as an \<open>int\<close>. \<open>formatTime_fields\<close> is the three \<open>const\<close> lines and
  \<open>formatTime\<close> the \<open>return\<close>; \<open>hours ? a : b\<close> takes the first branch when \<open>hours\<close> is not
  zero. \<open>String_of\<close> is the decimal numeral, which is what the template literal and
  \<open>String(n)\<close> give for an integer of magnitude below \<open>2^53\<close>; from \<open>2^53\<close> on JavaScript
  prints the shortest decimal that reads back as the same double, which may end in
  zeros that \<open>String_of\<close> does not produce, so the leading field of \<open>formatTime\<close> is the
  code's only while \<open>hours\<close> is below \<open>2^53\<close>.
\<close>

definition formatTime_fields :: "real \<Rightarrow> int \<times> int \<times> int" where
  "formatTime_fields time =
    (let hours = \<lfloor>to_double (time / 3600)\<rfloor>;
         minutes = \<lfloor>to_double (to_double (time - to_double (of_int hours * 3600)) / 60)\<rfloor>;
         seconds = \<lfloor>to_double (to_double (time - to_double (of_int hours * 3600))
                               - to_double (of_int minutes * 60))\<rfloor>
     in (hours, minutes, seconds))"

definition formatTime :: "real \<Rightarrow> string" where
  "formatTime time =
    (let (hours, minutes, seconds) = formatTime_fields time
     in if hours \<noteq> 0
        then String_of hours @ '':'' @ padStart 2 CHR ''0'' (String_of minutes)
               @ '':'' @ padStart 2 CHR ''0'' (String_of seconds)
        else String_of minutes @ '':'' @ padStart 2 CHR ''0'' (String_of seconds))"

text \<open>
  The format as the specification words it: \<open>H = floor(t / 3600)\<close>,
  \<open>M = floor((t mod 3600) / 60)\<close>, \<open>S = floor(t mod 60)\<close>, the remainder of a
  non-negative real by a positive modulus being \<open>t - m * floor(t / m)\<close>; a two-digit
  field is a tens digit followed by a units digit.
\<close>

definition fmod :: "real \<Rightarrow> real \<Rightarrow> real" where
  "fmod t m = t - m * of_int \<lfloor>t / m\<rfloor>"

definition spec_H :: "real \<Rightarrow> int" where "spec_H t = \<lfloor>t / 3600\<rfloor>"
definition spec_M :: "real \<Rightarrow> int" where "spec_M t = \<lfloor>fmod t 3600 / 60\<rfloor>"
definition spec_S :: "real \<Rightarrow> int" where "spec_S t = \<lfloor>fmod t 60\<rfloor>"

definition two_digits :: "int \<Rightarrow> string" where
  "two_digits n = [digit_char (nat n div 10), digit_char (nat n mod 10)]"

definition spec_formatTime :: "real \<Rightarrow> string" where
  "spec_formatTime t =
    (if t \<ge> 3600
     then String_of (spec_H t) @ '':'' @ two_digits (spec_M t) @ '':'' @ two_digits (spec_S t)
     else String_of (spec_M t) @ '':'' @ two_digits (spec_S t))"

section \<open>StardustSeekBar: the gesture mapper\<close>

text \<open>
  \<open>updateScrubbing\<close> (a listener of every pointer move and pointer up of the document):
  \<^verbatim>\<open>
  if (!scrubbing) return
  event.time = this.videoElement.duration * (e.clientX - rect.left) / rect.width
  this.dispatchEvent(event)
  \<close>
  The result is the time of the dispatched \<open>timechange\<close> event, \<open>None\<close> when nothing
  is dispatched. The duration is \<open>NaN\<close> while it is unknown.
\<close>

definition updateScrubbing :: "bool \<Rightarrow> jsnum \<Rightarrow> real \<Rightarrow> real \<Rightarrow> real \<Rightarrow> jsnum option" where
  "updateScrubbing scrubbing duration clientX left width =
     (if \<not> scrubbing then None
      else Some (js_div (js_mul duration (Num (clientX - left))) (Num width)))"

text \<open>
  The preview listener of pointer moves:
  \<^verbatim>\<open>
  const { left, width } = this.getBoundingClientRect()
  if (this.offsetWidth + this.offsetHeight == 0) return
  const previewTime = clamp(0, e.clientX - left, width) / width * this.videoElement.duration
  ... dispatch previewtimechange with time = previewTime ...
  let pos = (e.clientX - left)
  if (pos < pw / 2) pos = pw / 2
  if (pos > width - pw / 2) pos = width - pw / 2
  popover.style.left = pos
  \<close>
  where \<open>pw\<close> is the rendered width of the preview image. \<open>offsetWidth\<close> and
  \<open>offsetHeight\<close> are the non-negative integers of the layout box. The text of the
  timecode label, written last, is left out.
\<close>

record preview_event =
  time :: jsnum
  popover_left :: real

definition popover_pos :: "real \<Rightarrow> real \<Rightarrow> real \<Rightarrow> real \<Rightarrow> real" where
  "popover_pos clientX left width pw =
     (let pos = clientX - left;
          pos = (if pos < pw / 2 then pw / 2 else pos);
          pos = (if pos > width - pw / 2 then width - pw / 2 else pos)
      in pos)"

definition previewPointermove ::
    "nat \<Rightarrow> nat \<Rightarrow> jsnum \<Rightarrow> real \<Rightarrow> real \<Rightarrow> real \<Rightarrow> real \<Rightarrow> preview_event option" where
  "previewPointermove offsetWidth offsetHeight duration clientX left width pw =
     (if offsetWidth + offsetHeight = 0 then None
      else Some \<lparr> time = js_mul (js_div (Num (clamp 0 (clientX - left) width)) (Num width)) duration,
                  popover_left = popover_pos clientX left width pw \<rparr>)"

section \<open>Thumbnail cache: lookup\<close>

record frame =
  timecode :: real
  image :: string

text \<open>
  The scan of the animation loop and of \<open>updateseekBarPopover\<close>:
  \<^verbatim>\<open>
  for (const frame of this.#seekbarPreviewImages) {
      if (frame.timecode >= query) { ...previewImageSrc = frame.image; break }
  }
  \<close>
  \<open>preview_scan\<close> is the frame at which the loop breaks, if it does.
\<close>

fun preview_scan :: "frame list \<Rightarrow> jsnum \<Rightarrow> frame option" where
  "preview_scan [] q = None"
| "preview_scan (f # fs) q = (if js_ge (Num (timecode f)) q then Some f else preview_scan fs q)"

text \<open>
  The two image elements written by the animation loop of the Stardust player (desktop
  and mobile seek bar); \<open>#seekBarPreviewTimecode\<close> is \<open>undefined\<close> until the first
  \<open>previewtimechange\<close>.
\<close>

record popovers =
  seekBar_previewImageSrc :: string
  mobileSeekBar_previewImageSrc :: string

definition animationLoop_popover :: "frame list \<Rightarrow> jsnum option \<Rightarrow> popovers \<Rightarrow> popovers" where
  "animationLoop_popover seekbarPreviewImages seekBarPreviewTimecode p =
     (case preview_scan seekbarPreviewImages (ToNumber seekBarPreviewTimecode) of
        None \<Rightarrow> p
      | Some f \<Rightarrow> p\<lparr> seekBar_previewImageSrc := image f, mobileSeekBar_previewImageSrc := image f \<rparr>)"

text \<open>\<open>updateseekBarPopover\<close> of the G-Player generation: one image element.\<close>

definition updateseekBarPopover :: "frame list \<Rightarrow> jsnum \<Rightarrow> string \<Rightarrow> string" where
  "updateseekBarPopover seekbarPreviewImages tc seekBarPreview_src =
     (case preview_scan seekbarPreviewImages tc of
        None \<Rightarrow> seekBarPreview_src
      | Some f \<Rightarrow> image f)"

section \<open>Subtitles in the animation loop\<close>

record subtitle =
  sub_start :: real
  sub_end :: real
  sub_text :: string

datatype js_error = TypeError

text \<open>
  \<^verbatim>\<open>
  let newSubtitles = ''
  if (this.#subtitles) {
      for (const subtitle of this.#subtitleObjects) {
          if (currentTime >= subtitle.start && currentTime < subtitle.end) {
              newSubtitles = DOMPurify.sanitize(marked.parse(subtitle.text))
              break
          }
      }
  }
  if (subtitleContainer.innerHTML != newSubtitles) subtitleContainer.innerHTML = newSubtitles
  \<close>
  \<open>render\<close> stands for the two external renderers. \<open>#subtitleObjects\<close> is \<open>undefined\<close>
  (\<open>None\<close>) until a track has been fetched and parsed; iterating it then throws.
  The result is the content of the container after the pass and whether it was written.
\<close>

fun subtitle_scan :: "(string \<Rightarrow> string) \<Rightarrow> real \<Rightarrow> subtitle list \<Rightarrow> string" where
  "subtitle_scan render t [] = []"
| "subtitle_scan render t (s # ss) =
     (if t \<ge> sub_start s \<and> t < sub_end s then render (sub_text s) else subtitle_scan render t ss)"

definition write_if_changed :: "string \<Rightarrow> string \<Rightarrow> string \<times> bool" where
  "write_if_changed innerHTML newSubtitles =
     (if innerHTML \<noteq> newSubtitles then (newSubtitles, True) else (innerHTML, False))"

definition animationLoop_subtitles ::
    "(string \<Rightarrow> string) \<Rightarrow> bool \<Rightarrow> subtitle list option \<Rightarrow> real \<Rightarrow> string \<Rightarrow> js_error + (string \<times> bool)" where
  "animationLoop_subtitles render subtitles subtitleObjects currentTime innerHTML =
     (if subtitles
      then (case subtitleObjects of
              None \<Rightarrow> Inl TypeError
            | Some subs \<Rightarrow> Inr (write_if_changed innerHTML (subtitle_scan render currentTime subs)))
      else Inr (write_if_changed innerHTML []))"

section \<open>Thumbnail sampler\<close>

text \<open>
  The comparator handed to \<open>Array.prototype.sort\<close> is
  \<^verbatim>\<open>(a, b) => a.timecode > b.timecode\<close>: it returns a boolean. The sort applies
  \<open>ToNumber\<close> to the result of every call (\<open>true\<close> is 1, \<open>false\<close> is 0), so the
  number it sees is never negative.
\<close>

definition preview_comparefn :: "frame \<Rightarrow> frame \<Rightarrow> bool" where
  "preview_comparefn a b = (timecode a > timecode b)"

definition ToNumber_bool :: "bool \<Rightarrow> real" where
  "ToNumber_bool b = (if b then 1 else 0)"

definition SortCompare :: "('a \<Rightarrow> 'a \<Rightarrow> bool) \<Rightarrow> 'a \<Rightarrow> 'a \<Rightarrow> real" where
  "SortCompare comparefn x y = ToNumber_bool (comparefn x y)"

text \<open>
  \<open>Array.prototype.sort\<close> belongs to the host. ECMAScript fixes its result only for a
  consistent comparator (among its conditions: \<open>comparefn(b, a) = 0\<close> whenever
  \<open>comparefn(a, b) = 0\<close>); for any other the order is implementation-defined. The sampler therefore takes the
  host's sort as a parameter \<open>srt\<close>, applied to the numeric comparator. Two hosts are
  modelled below.

  The first is the sort of V8 (Chrome, Edge, Node.js) for arrays shorter than 64
  elements: the longest initial run is counted (\<open>CountAndMakeRun\<close>: the run is
  descending when \<open>order < 0\<close> for its first pair and is then reversed in place; an
  ascending run ends at the first element with \<open>order < 0\<close> against its predecessor),
  and every later element is placed by a binary search (\<open>BinaryInsertionSort\<close>) that
  goes left only when \<open>order < 0\<close>.
\<close>

fun count_run :: "('a \<Rightarrow> 'a \<Rightarrow> real) \<Rightarrow> bool \<Rightarrow> 'a \<Rightarrow> 'a list \<Rightarrow> nat" where
  "count_run cmp descending previous [] = 0"
| "count_run cmp descending previous (x # xs) =
     (let order = cmp x previous
      in if descending then (if order \<ge> 0 then 0 else Suc (count_run cmp descending x xs))
         else (if order < 0 then 0 else Suc (count_run cmp descending x xs)))"

definition CountAndMakeRun :: "('a \<Rightarrow> 'a \<Rightarrow> real) \<Rightarrow> 'a list \<Rightarrow> nat \<times> 'a list" where
  "CountAndMakeRun cmp xs =
     (case xs of
        [] \<Rightarrow> (0, xs)
      | [x] \<Rightarrow> (1, xs)
      | low # high # rest \<Rightarrow>
          (let descending = (cmp high low < 0);
               runLength = 2 + count_run cmp descending high rest
           in (runLength, if descending then rev (take runLength xs) @ drop runLength xs else xs)))"

function binary_search :: "('a \<Rightarrow> 'a \<Rightarrow> real) \<Rightarrow> 'a \<Rightarrow> 'a list \<Rightarrow> nat \<Rightarrow> nat \<Rightarrow> nat" where
  "binary_search cmp pivot xs left right =
     (if left < right
      then (let mid = left + (right - left) div 2
            in if cmp pivot (xs ! mid) < 0
               then binary_search cmp pivot xs left mid
               else binary_search cmp pivot xs (mid + 1) right)
      else left)"
  by pat_completeness auto
termination
  by (relation "measure (\<lambda>(cmp, pivot, xs, left, right). right - left)") auto

declare binary_search.simps [simp del]

text \<open>Elements \<open>start, start + 1, \<dots>\<close> are inserted into the sorted prefix before them.\<close>

function BinaryInsertionSort :: "('a \<Rightarrow> 'a \<Rightarrow> real) \<Rightarrow> nat \<Rightarrow> 'a list \<Rightarrow> 'a list" where
  "BinaryInsertionSort cmp start xs =
     (if start < length xs
      then (let pivot = xs ! start;
                left = binary_search cmp pivot xs 0 start
            in BinaryInsertionSort cmp (start + 1)
                 (take left xs @ [pivot] @ drop left (take start xs) @ drop (start + 1) xs))
      else xs)"
  by pat_completeness auto
termination
proof (relation "measure (\<lambda>(cmp, start, xs). length xs - start)", goal_cases)
  case 1
  show ?case by simp
next
  case (2 cmp start xs pivot left)
  have "binary_search cmp (xs ! start) xs a b \<le> max a b" for a b
    by (induction cmp "xs ! start" xs a b rule: binary_search.induct)
       (subst binary_search.simps, auto simp: Let_def)
  then have "left \<le> start" using 2 by (metis max_0L)
  then show ?case using 2 by simp
qed

declare BinaryInsertionSort.simps [simp del]

definition sort_v8 :: "('a \<Rightarrow> 'a \<Rightarrow> real) \<Rightarrow> 'a list \<Rightarrow> 'a list" where
  "sort_v8 cmp xs =
     (if length xs < 2 then xs
      else (let (runLength, ys) = CountAndMakeRun cmp xs in BinaryInsertionSort cmp runLength ys))"

text \<open>
  The second host sorts by straight insertion and takes every result that is not
  positive as "in order": an element moves left past its neighbour \<open>x\<close> while
  \<open>comparefn(x, element) > 0\<close>. The sorted prefix is kept reversed, nearest
  neighbour first.
\<close>

fun insert_left :: "('a \<Rightarrow> 'a \<Rightarrow> real) \<Rightarrow> 'a \<Rightarrow> 'a list \<Rightarrow> 'a list" where
  "insert_left cmp item [] = [item]"
| "insert_left cmp item (x # xs) =
     (if cmp x item > 0 then x # insert_left cmp item xs else item # x # xs)"

fun sort_insertion_from :: "('a \<Rightarrow> 'a \<Rightarrow> real) \<Rightarrow> 'a list \<Rightarrow> 'a list \<Rightarrow> 'a list" where
  "sort_insertion_from cmp prefix_rev [] = rev prefix_rev"
| "sort_insertion_from cmp prefix_rev (item # rest) =
     sort_insertion_from cmp (insert_left cmp item prefix_rev) rest"

definition sort_insertion :: "('a \<Rightarrow> 'a \<Rightarrow> real) \<Rightarrow> 'a list \<Rightarrow> 'a list" where
  "sort_insertion cmp xs = sort_insertion_from cmp [] xs"

text \<open>
  \<open>#renderSeekBarPreviewImages\<close>:
  \<^verbatim>\<open>
  this.#seekbarPreviewImages = []
  const renderAndApplyPreviewImage = async timecode => {
      video.currentTime = timecode
      await new Promise(r => { setInterval(() => video.readyState >= 2 && r(), 10) })
      ctx.drawImage(video, 0, 0, size.width, size.height)
      this.#seekbarPreviewImages.push({ timecode, image: canvas.toDataURL('image/webp', 50) })
      this.#seekbarPreviewImages.sort((a, b) => a.timecode > b.timecode)
  }
  await renderAndApplyPreviewImage(this.#videoElement.duration)
  for (let i = 1; i <= this.options.previewImageIterations; i++) {
      const firstTimecode = this.#videoElement.duration / Math.pow(2, i)
      for (let t = firstTimecode; t < this.#videoElement.duration; t += firstTimecode * 2) {
          await renderAndApplyPreviewImage(t)
      }
  }
  \<close>
  The state is the history of the positions the off-screen video was sent to
  (\<open>seeks\<close>; the video element is created anew by every call) and the cache. \<open>capture\<close> is the image the canvas yields at a position;
  every polled frame is taken to become ready. The inner loop is written as the source
  has it, on \<open>t\<close> alone; as a function of arbitrary arguments it need not end
  (\<open>firstTimecode \<le> 0\<close> with \<open>t\<close> below the duration), so it returns an option.
\<close>

record sampler =
  seeks :: "real list"
  seekbarPreviewImages :: "frame list"

type_synonym host_sort = "(frame \<Rightarrow> frame \<Rightarrow> real) \<Rightarrow> frame list \<Rightarrow> frame list"

definition renderAndApplyPreviewImage ::
    "host_sort \<Rightarrow> (real \<Rightarrow> string) \<Rightarrow> real \<Rightarrow> sampler \<Rightarrow> sampler" where
  "renderAndApplyPreviewImage srt capture tc st =
     st\<lparr> seeks := seeks st @ [tc],
         seekbarPreviewImages :=
           srt (SortCompare preview_comparefn)
               (seekbarPreviewImages st @ [\<lparr> timecode = tc, image = capture tc \<rparr>]) \<rparr>"

partial_function (option) render_inner ::
    "host_sort \<Rightarrow> (real \<Rightarrow> string) \<Rightarrow> real \<Rightarrow> real \<Rightarrow> real \<Rightarrow> sampler \<Rightarrow> sampler option" where
  "render_inner srt capture duration firstTimecode t st =
     (if t < duration
      then render_inner srt capture duration firstTimecode (t + firstTimecode * 2)
             (renderAndApplyPreviewImage srt capture t st)
      else Some st)"

declare render_inner.simps [code]

function render_outer ::
    "host_sort \<Rightarrow> (real \<Rightarrow> string) \<Rightarrow> real \<Rightarrow> nat \<Rightarrow> nat \<Rightarrow> sampler \<Rightarrow> sampler option" where
  "render_outer srt capture duration previewImageIterations i st =
     (if i \<le> previewImageIterations
      then (let firstTimecode = duration / 2 ^ i
            in case render_inner srt capture duration firstTimecode firstTimecode st of
                 None \<Rightarrow> None
               | Some st' \<Rightarrow> render_outer srt capture duration previewImageIterations (i + 1) st')
      else Some st)"
  by pat_completeness auto
termination
  by (relation "measure (\<lambda>(srt, capture, duration, k, i, st). Suc k - i)") auto

declare render_outer.simps [simp del]

definition renderSeekBarPreviewImages ::
    "host_sort \<Rightarrow> (real \<Rightarrow> string) \<Rightarrow> real \<Rightarrow> nat \<Rightarrow> sampler \<Rightarrow> sampler option" where
  "renderSeekBarPreviewImages srt capture duration previewImageIterations st =
     render_outer srt capture duration previewImageIterations 1
       (renderAndApplyPreviewImage srt capture duration
          (st\<lparr> seeks := [], seekbarPreviewImages := [] \<rparr>))"

text \<open>
  The schedule as the specification words it: the duration first, then for each
  \<open>i = 1..K\<close> the odd multiples of \<open>D / 2^i\<close> below \<open>D\<close>, in ascending order.
\<close>

definition odd_multiples :: "real \<Rightarrow> nat \<Rightarrow> real list" where
  "odd_multiples D i = map (\<lambda>j. (2 * real j + 1) * (D / 2 ^ i)) [0 ..< 2 ^ (i - 1)]"

definition spec_schedule :: "real \<Rightarrow> nat \<Rightarrow> real list" where
  "spec_schedule D K = D # concat (map (odd_multiples D) [1 ..< Suc K])"

section \<open>StardustPlayer: state, timers and handlers\<close>

text \<open>
  The player is single-threaded and event-driven: every handler runs to completion.
  Its state is the private fields of the class, the classes of its class list that the
  handlers test, the closure variables of \<open>connectedCallback\<close>, and the host's table of
  pending timers. \<open>Date.now()\<close> at the moment a handler runs is the handler's argument
  \<open>now\<close> (milliseconds), and a timer armed at \<open>now\<close> with a delay is due at
  \<open>now + delay\<close>.
\<close>

datatype callback = HideControls | TogglePaused | TapToggleOverlay | RemoveNoClick

record timer =
  tid :: nat
  due :: int
  callback :: callback

record options =
  doubleClickDuration :: int
  doubleTapJumpDuration :: int
  doubleTapJumpDistance :: real
  doubleTapJumpScreenPortion :: real
  hideControlsTimeout :: int
  hideControlsTimeoutMobile :: int
  previewImageIterations :: nat

definition default_options :: options where
  "default_options =
     \<lparr> doubleClickDuration = 250, doubleTapJumpDuration = 250, doubleTapJumpDistance = 5,
       doubleTapJumpScreenPortion = 3 / 10, hideControlsTimeout = 1500,
       hideControlsTimeoutMobile = 3000, previewImageIterations = 8 \<rparr>"

text \<open>The media element, with its duration known.\<close>

record video =
  currentTime :: real
  duration :: real
  video_paused :: bool
  video_muted :: bool

text \<open>
  Modelled from the spec: the media engine's \<open>seek(timecode)\<close>, the setter of
  \<open>currentTime\<close> of the host's media element, which is not part of the sources. The
  specification: "out-of-range seeks are clamped, never rejected" and "clamped silently
  to \<open>[0, duration]\<close>".
\<close>

definition seek :: "real \<Rightarrow> video \<Rightarrow> video" where
  "seek t v = v\<lparr> currentTime := clamp 0 t (duration v) \<rparr>"

text \<open>The calls of the two toggles are logged, to count them.\<close>

datatype call = ToggleFullscreen | TogglePausedCall

record player =
  options :: options
  videoElement :: video
  paused :: bool
  muted :: bool
  subtitles :: bool
  fullscreen :: bool
  ended :: bool
  seekBarPreviewTimecode :: "jsnum option"
  controls_hidden :: bool
  no_click :: bool
  mobile :: bool
  offsetLeft :: real
  offsetWidth :: real
  hideControlsTimeout_id :: "nat option"
  lastClickTime :: int
  lastTapTime :: int
  playPauseTimeout_id :: "nat option"
  tapJumpTimeout_id :: "nat option"
  timers :: "timer list"
  next_timer :: nat
  calls :: "call list"

text \<open>
  \<open>setTimeout\<close> returns a fresh identifier; \<open>clearTimeout\<close> of an identifier that
  is not pending, or of \<open>undefined\<close>, does nothing.
\<close>

definition setTimeout :: "callback \<Rightarrow> int \<Rightarrow> int \<Rightarrow> player \<Rightarrow> nat \<times> player" where
  "setTimeout cb delay now s =
     (next_timer s,
      s\<lparr> timers := timers s @ [\<lparr> tid = next_timer s, due = now + delay, callback = cb \<rparr>],
          next_timer := next_timer s + 1 \<rparr>)"

definition clearTimeout :: "nat option \<Rightarrow> player \<Rightarrow> player" where
  "clearTimeout h s =
     (case h of None \<Rightarrow> s | Some i \<Rightarrow> s\<lparr> timers := filter (\<lambda>t. tid t \<noteq> i) (timers s) \<rparr>)"

text \<open>
  \<^verbatim>\<open>
  this.#updateHideControls = () => {
      this.classList.remove('controls-hidden')
      clearTimeout(hideControlsTimeout)
      hideControlsTimeout = setTimeout(() => {
          if (this.paused) return
          if (this.#ended) return
          this.classList.add('controls-hidden')
      }, this.classList.contains('mobile') ? this.options.hideControlsTimeoutMobile
                                           : this.options.hideControlsTimeout)
  }
  \<close>
\<close>

definition updateHideControls :: "int \<Rightarrow> player \<Rightarrow> player" where
  "updateHideControls now s =
     (let s = s\<lparr> controls_hidden := False \<rparr>;
          s = clearTimeout (hideControlsTimeout_id s) s;
          (i, s) = setTimeout HideControls
                     (if mobile s then hideControlsTimeoutMobile (options s)
                      else hideControlsTimeout (options s)) now s
      in s\<lparr> hideControlsTimeout_id := Some i \<rparr>)"

definition hideControls_fires :: "player \<Rightarrow> player" where
  "hideControls_fires s =
     (if paused s then s
      else if ended s then s
      else s\<lparr> controls_hidden := True \<rparr>)"

text \<open>
  The setters and toggles of the flags. The classes \<open>paused\<close>, \<open>muted\<close>,
  \<open>subtitles\<close> and \<open>fullscreen\<close> of the class list mirror the flags and are not
  kept apart; the requests to the fullscreen and orientation interfaces are left out.
\<close>

definition updatePaused :: "int \<Rightarrow> player \<Rightarrow> player" where
  "updatePaused now s =
     updateHideControls now (s\<lparr> videoElement := (videoElement s)\<lparr> video_paused := paused s \<rparr> \<rparr>)"

definition set_paused :: "bool \<Rightarrow> int \<Rightarrow> player \<Rightarrow> player" where
  "set_paused newValue now s = updatePaused now (s\<lparr> paused := newValue \<rparr>)"

definition togglePaused :: "int \<Rightarrow> player \<Rightarrow> player" where
  "togglePaused now s =
     set_paused (\<not> paused s) now (s\<lparr> calls := calls s @ [TogglePausedCall] \<rparr>)"

definition set_fullscreen :: "bool \<Rightarrow> player \<Rightarrow> player" where
  "set_fullscreen newValue s = s\<lparr> fullscreen := newValue \<rparr>"

definition toggleFullscreen :: "player \<Rightarrow> player" where
  "toggleFullscreen s =
     set_fullscreen (\<not> fullscreen s) (s\<lparr> calls := calls s @ [ToggleFullscreen] \<rparr>)"

definition toggleMute :: "player \<Rightarrow> player" where
  "toggleMute s =
     s\<lparr> muted := \<not> muted s, videoElement := (videoElement s)\<lparr> video_muted := \<not> muted s \<rparr> \<rparr>"

definition toggleSubtitles :: "player \<Rightarrow> player" where
  "toggleSubtitles s = s\<lparr> subtitles := \<not> subtitles s \<rparr>"

text \<open>
  The overlay toggle of a touch contact, immediate in the centre and deferred in a jump
  zone:
  \<^verbatim>\<open>
  if (this.classList.contains('controls-hidden')) { this.#updateHideControls() }
  else { this.classList.add('controls-hidden'); this.classList.add('no-click') }
  \<close>
\<close>

definition tapToggleOverlay :: "int \<Rightarrow> player \<Rightarrow> player" where
  "tapToggleOverlay now s =
     (if controls_hidden s then updateHideControls now s
      else s\<lparr> controls_hidden := True, no_click := True \<rparr>)"

datatype pointerType = Mouse | Touch | Pen

text \<open>
  The \<open>pointerdown\<close> listener of the video element. Mouse branch:
  \<^verbatim>\<open>
  if (e.buttons != 1) return
  this.#updateHideControls()
  clearTimeout(playPauseTimeout)
  if (Date.now() - lastClickTime <= this.options.doubleClickDuration) {
      this.toggleFullscreen()
      return
  }
  lastClickTime = Date.now()
  playPauseTimeout = setTimeout(() => { this.togglePaused() }, this.options.doubleClickDuration)
  \<close>
\<close>

definition pointerdown_mouse :: "int \<Rightarrow> nat \<Rightarrow> player \<Rightarrow> player" where
  "pointerdown_mouse now buttons s =
     (if buttons \<noteq> 1 then s
      else (let s = updateHideControls now s;
                s = clearTimeout (playPauseTimeout_id s) s
            in if now - lastClickTime s \<le> doubleClickDuration (options s)
               then toggleFullscreen s
               else (let s = s\<lparr> lastClickTime := now \<rparr>;
                         (i, s) = setTimeout TogglePaused (doubleClickDuration (options s)) now s
                     in s\<lparr> playPauseTimeout_id := Some i \<rparr>)))"

text \<open>
  Touch (and pen) branch:
  \<^verbatim>\<open>
  const portion = (e.clientX - this.offsetLeft) / this.offsetWidth
  const direction = portion <= this.options.doubleTapJumpScreenPortion ? 'l'
      : (portion >= 1 - this.options.doubleTapJumpScreenPortion ? 'r' : '')
  let jumped = false
  clearTimeout(tapJumpTimeout)
  if (direction) {
      if (Date.now() - lastTapTime <= this.options.doubleTapJumpDuration) {
          this.#videoElement.currentTime += direction == 'r'
              ? this.options.doubleTapJumpDistance : -this.options.doubleTapJumpDistance
          jumped = true
          lastTapTime = 0
      }
      lastTapTime = Date.now()
  }
  if (!jumped) {
      if (!direction) { ...toggle the overlay... }
      else { tapJumpTimeout = setTimeout(() => { ...toggle the overlay... },
                                         this.options.doubleTapJumpDuration) }
  }
  \<close>
\<close>

definition tap_direction :: "real \<Rightarrow> player \<Rightarrow> string" where
  "tap_direction clientX s =
     (let portion = js_div (Num (clientX - offsetLeft s)) (Num (offsetWidth s))
      in if js_le portion (Num (doubleTapJumpScreenPortion (options s))) then ''l''
         else if js_ge portion (Num (1 - doubleTapJumpScreenPortion (options s))) then ''r''
         else [])"

definition pointerdown_touch :: "int \<Rightarrow> real \<Rightarrow> player \<Rightarrow> player" where
  "pointerdown_touch now clientX s =
     (let direction = tap_direction clientX s;
          jumped = False;
          s = clearTimeout (tapJumpTimeout_id s) s;
          (jumped, s) =
            (if direction \<noteq> []
             then (let (jumped, s) =
                         (if now - lastTapTime s \<le> doubleTapJumpDuration (options s)
                          then (True,
                                s\<lparr> videoElement :=
                                     seek (currentTime (videoElement s)
                                             + (if direction = ''r''
                                                then doubleTapJumpDistance (options s)
                                                else - doubleTapJumpDistance (options s)))
                                          (videoElement s),
                                   lastTapTime := 0 \<rparr>)
                          else (jumped, s))
                   in (jumped, s\<lparr> lastTapTime := now \<rparr>))
             else (jumped, s))
      in if \<not> jumped
         then (if direction = [] then tapToggleOverlay now s
               else (let (i, s) = setTimeout TapToggleOverlay (doubleTapJumpDuration (options s)) now s
                     in s\<lparr> tapJumpTimeout_id := Some i \<rparr>))
         else s)"

definition pointerdown :: "int \<Rightarrow> pointerType \<Rightarrow> nat \<Rightarrow> real \<Rightarrow> player \<Rightarrow> player" where
  "pointerdown now ptype buttons clientX s =
     (if ptype = Mouse then pointerdown_mouse now buttons s else pointerdown_touch now clientX s)"

text \<open>
  \<open>pointerup\<close> on the video element arms an untracked timer that removes \<open>no-click\<close>;
  \<open>pointermove\<close> on the player is an activity signal when it comes from a mouse.
\<close>

definition pointerup :: "int \<Rightarrow> pointerType \<Rightarrow> player \<Rightarrow> player" where
  "pointerup now ptype s =
     (if ptype \<noteq> Mouse
      then (if \<not> controls_hidden s then snd (setTimeout RemoveNoClick 100 now s) else s)
      else s)"

definition pointermove :: "int \<Rightarrow> pointerType \<Rightarrow> player \<Rightarrow> player" where
  "pointermove now ptype s = (if ptype = Mouse then updateHideControls now s else s)"

text \<open>
  The keyboard: \<open>button_focused\<close> is \<open>document.activeElement.tagName == 'BUTTON'\<close>.
  The seeks read and write \<open>currentTime\<close> of the media element.
\<close>

definition keydown :: "int \<Rightarrow> string \<Rightarrow> bool \<Rightarrow> player \<Rightarrow> player" where
  "keydown now key button_focused s =
     (let s = updateHideControls now s
      in if key = '' '' then (if button_focused then s else togglePaused now s)
         else if key = ''k'' then togglePaused now s
         else if key = ''m'' then toggleMute s
         else if key = ''f'' then toggleFullscreen s
         else if key = ''c'' then toggleSubtitles s
         else if key = ''Escape'' then set_fullscreen False s
         else if key = ''ArrowLeft''
           then s\<lparr> videoElement := seek (currentTime (videoElement s) - 5) (videoElement s) \<rparr>
         else if key = ''ArrowRight''
           then s\<lparr> videoElement := seek (currentTime (videoElement s) + 5) (videoElement s) \<rparr>
         else if key = ''j''
           then s\<lparr> videoElement := seek (currentTime (videoElement s) - 10) (videoElement s) \<rparr>
         else if key = ''l''
           then s\<lparr> videoElement := seek (currentTime (videoElement s) + 10) (videoElement s) \<rparr>
         else s)"

text \<open>
  The listeners of the two seek bars (the same for both) and of the media element:
  \<^verbatim>\<open>
  seekBar.addEventListener('timechange', e => this.#videoElement.currentTime = e.time)
  seekBar.addEventListener('previewtimechange', e => this.#seekBarPreviewTimecode = e.time)
  seekBar.addEventListener('seekingchange', e => {
      (e.seeking || this.#paused) ? this.#videoElement.pause() : this.#videoElement.play()
      this.#updateHideControls()
  })
  this.#videoElement.addEventListener('ended', e => {
      this.#ended = true
      this.paused = true
      this.#updateHideControls()
  })
  this.#videoElement.addEventListener('timeupdate', e => { this.#ended = false })
  \<close>
  The time of a \<open>timechange\<close> is the number the gesture mapper computed, finite or
  not. The setter of \<open>currentTime\<close> belongs to the host's media element and is not part
  of the sources: its attribute is a finite double, so the host refuses a value that is
  not finite with a \<open>TypeError\<close> before anything is sought, and hands a finite value
  to the seek.
\<close>

definition set_currentTime :: "jsnum \<Rightarrow> video \<Rightarrow> js_error + video" where
  "set_currentTime t v =
     (case t of
        Num x \<Rightarrow> Inr (seek x v)
      | NaN \<Rightarrow> Inl TypeError
      | PosInf \<Rightarrow> Inl TypeError
      | NegInf \<Rightarrow> Inl TypeError)"

definition on_timechange :: "jsnum \<Rightarrow> player \<Rightarrow> js_error + player" where
  "on_timechange t s =
     (case set_currentTime t (videoElement s) of
        Inl e \<Rightarrow> Inl e
      | Inr v \<Rightarrow> Inr (s\<lparr> videoElement := v \<rparr>))"

definition on_previewtimechange :: "jsnum \<Rightarrow> player \<Rightarrow> player" where
  "on_previewtimechange t s = s\<lparr> seekBarPreviewTimecode := Some t \<rparr>"

definition on_seekingchange :: "int \<Rightarrow> bool \<Rightarrow> player \<Rightarrow> player" where
  "on_seekingchange now seeking s =
     updateHideControls now
       (s\<lparr> videoElement := (videoElement s)\<lparr> video_paused := (seeking \<or> paused s) \<rparr> \<rparr>)"

definition on_ended :: "int \<Rightarrow> player \<Rightarrow> player" where
  "on_ended now s = updateHideControls now (set_paused True now (s\<lparr> ended := True \<rparr>))"

definition on_timeupdate :: "player \<Rightarrow> player" where
  "on_timeupdate s = s\<lparr> ended := False \<rparr>"

text \<open>
  A pending timer fires once it is due, leaves the table and runs its callback; an
  identifier that is not pending or not yet due fires nothing.
\<close>

definition run_callback :: "callback \<Rightarrow> int \<Rightarrow> player \<Rightarrow> player" where
  "run_callback cb now s =
     (case cb of
        HideControls \<Rightarrow> hideControls_fires s
      | TogglePaused \<Rightarrow> togglePaused now s
      | TapToggleOverlay \<Rightarrow> tapToggleOverlay now s
      | RemoveNoClick \<Rightarrow> s\<lparr> no_click := False \<rparr>)"

definition timer_fires :: "int \<Rightarrow> nat \<Rightarrow> player \<Rightarrow> player" where
  "timer_fires now i s =
     (case find (\<lambda>t. tid t = i) (timers s) of
        None \<Rightarrow> s
      | Some t \<Rightarrow>
          (if due t \<le> now
           then run_callback (callback t) now (s\<lparr> timers := filter (\<lambda>t. tid t \<noteq> i) (timers s) \<rparr>)
           else s))"

text \<open>
  The events of a session, each with the time at which its handler runs. An exception
  thrown by a listener ends that listener; the player goes on in the state the listener
  left, which for the one assignment of the \<open>timechange\<close> listener is the state
  before it.
\<close>

datatype event =
    PointerMove pointerType
  | PointerDown pointerType nat real
  | PointerUp pointerType
  | KeyDown string bool
  | TimeChange jsnum
  | PreviewTimeChange jsnum
  | SeekingChange bool
  | Ended
  | TimeUpdate
  | ClickPlayPause
  | ClickMute
  | ClickFullscreen
  | ClickSubtitles
  | TimerFires nat

fun handle :: "int \<Rightarrow> event \<Rightarrow> player \<Rightarrow> player" where
  "handle now (PointerMove ptype) s = pointermove now ptype s"
| "handle now (PointerDown ptype buttons clientX) s = pointerdown now ptype buttons clientX s"
| "handle now (PointerUp ptype) s = pointerup now ptype s"
| "handle now (KeyDown key button_focused) s = keydown now key button_focused s"
| "handle now (TimeChange t) s = (case on_timechange t s of Inl e \<Rightarrow> s | Inr s' \<Rightarrow> s')"
| "handle now (PreviewTimeChange t) s = on_previewtimechange t s"
| "handle now (SeekingChange seeking) s = on_seekingchange now seeking s"
| "handle now Ended s = on_ended now s"
| "handle now TimeUpdate s = on_timeupdate s"
| "handle now ClickPlayPause s = togglePaused now s"
| "handle now ClickMute s = toggleMute s"
| "handle now ClickFullscreen s = toggleFullscreen s"
| "handle now ClickSubtitles s = toggleSubtitles s"
| "handle now (TimerFires i) s = timer_fires now i s"

fun run :: "(int \<times> event) list \<Rightarrow> player \<Rightarrow> player" where
  "run [] s = s"
| "run ((now, e) # es) s = run es (handle now e s)"

text \<open>
  The player as its constructor and field initialisers leave it, with the closure
  variables of \<open>connectedCallback\<close> at their initial values, for a media element of
  duration \<open>d\<close> and a layout box; and \<open>connectedCallback\<close>, which calls
  \<open>#updateHideControls\<close> and later \<open>#updatePaused\<close>.
\<close>

definition constructed :: "real \<Rightarrow> real \<Rightarrow> real \<Rightarrow> player" where
  "constructed d left width =
     \<lparr> options = default_options,
       videoElement = \<lparr> currentTime = 0, duration = d, video_paused = True, video_muted = False \<rparr>,
       paused = True, muted = False, subtitles = False, fullscreen = False, ended = False,
       seekBarPreviewTimecode = None,
       controls_hidden = False, no_click = False, mobile = False,
       offsetLeft = left, offsetWidth = width,
       hideControlsTimeout_id = None, lastClickTime = 0, lastTapTime = 0,
       playPauseTimeout_id = None, tapJumpTimeout_id = None,
       timers = [], next_timer = 0, calls = [] \<rparr>"

definition connectedCallback :: "int \<Rightarrow> player \<Rightarrow> player" where
  "connectedCallback now s = updatePaused now (updateHideControls now s)"

text \<open>The pending timers of one callback, and the invariant of the timer slots.\<close>

definition pending :: "callback \<Rightarrow> player \<Rightarrow> timer list" where
  "pending cb s = filter (\<lambda>t. callback t = cb) (timers s)"

text \<open>
  The half-open interval of a subtitle, as the specification words it: \<open>[start, end)\<close>.
\<close>

definition in_interval :: "subtitle \<Rightarrow> real \<Rightarrow> bool" where
  "in_interval s t = (sub_start s \<le> t \<and> t < sub_end s)"

text \<open>
  The invariant of the timer table: identifiers are distinct and below the next fresh
  one, and a pending timer of one of the three tracked callbacks is the one whose
  identifier its slot holds.
\<close>

definition timers_ok :: "player \<Rightarrow> bool" where
  "timers_ok s =
     (distinct (map tid (timers s))
      \<and> (\<forall>t \<in> set (timers s). tid t < next_timer s)
      \<and> (\<forall>t \<in> set (timers s).
            (callback t = HideControls \<longrightarrow> hideControlsTimeout_id s = Some (tid t))
          \<and> (callback t = TogglePaused \<longrightarrow> playPauseTimeout_id s = Some (tid t))
          \<and> (callback t = TapToggleOverlay \<longrightarrow> tapJumpTimeout_id s = Some (tid t))))"

text \<open>The invariant of the session: the position lies within the known duration.\<close>

definition time_in_range :: "player \<Rightarrow> bool" where
  "time_in_range s =
     (0 \<le> currentTime (videoElement s) \<and> currentTime (videoElement s) \<le> duration (videoElement s))"

definition video_ok :: "real \<Rightarrow> player \<Rightarrow> bool" where
  "video_ok D s = (duration (videoElement s) = D \<and> time_in_range s)"

text \<open>The delay of the debounce timer that \<open>#updateHideControls\<close> arms.\<close>

definition hide_delay :: "player \<Rightarrow> int" where
  "hide_delay s =
     (if mobile s then hideControlsTimeoutMobile (options s) else hideControlsTimeout (options s))"

section \<open>The time formatter\<close>

subsection \<open>Binades and rounding\<close>

text \<open>
  \<open>binade\<close> is the binary exponent, so \<open>to_double\<close> rounds onto the multiples of
  \<open>2^(e-52)\<close> of the binade \<open>e\<close> of its argument.
\<close>

lemma bits_bounds: "0 < n \<Longrightarrow> 2 ^ (bits n - 1) \<le> n \<and> n < 2 ^ bits n"
proof (induction n rule: bits.induct)
  case (1 n)
  show ?case
  proof (cases "n div 2 = 0")
    case True
    with 1(2) have "n = 1" by (auto simp: div_eq_0_iff)
    then show ?thesis by (simp add: bits.simps)
  next
    case False
    then have pos: "0 < n div 2" by simp
    from 1(1)[OF _ pos] 1(2)
    have ih: "2 ^ (bits (n div 2) - 1) \<le> n div 2" "n div 2 < 2 ^ bits (n div 2)" by simp_all
    have b: "bits n = Suc (bits (n div 2))" using 1(2) by (subst bits.simps) simp
    have bpos: "0 < bits (n div 2)" using pos by (subst bits.simps) simp
    then have e: "2 ^ (bits n - 1) = 2 * (2::nat) ^ (bits (n div 2) - 1)"
      by (cases "bits (n div 2)") (simp_all add: b)
    have "2 * (n div 2) \<le> n" by simp
    with ih(1) have lo: "2 ^ (bits n - 1) \<le> n" unfolding e by linarith
    have "n < 2 * (n div 2) + 2" by presburger
    also have "\<dots> \<le> 2 * 2 ^ bits (n div 2)" using ih(2) by simp
    finally have hi: "n < 2 ^ bits n" by (simp add: b)
    from lo hi show ?thesis by simp
  qed
qed

lemma bits_pos: "0 < n \<Longrightarrow> 0 < bits n"
  by (subst bits.simps) simp

lemma bits_bounds_real:
  assumes "0 < n"
  shows "(2::real) ^ (bits n - 1) \<le> real n" "real n + 1 \<le> 2 ^ bits n"
proof -
  note bb = bits_bounds[OF assms]
  have "real (2 ^ (bits n - 1)) \<le> real n" using bb by (simp only: of_nat_le_iff)
  then show "(2::real) ^ (bits n - 1) \<le> real n" by simp
  have "Suc n \<le> 2 ^ bits n" using bb by simp
  then have "real (Suc n) \<le> real (2 ^ bits n)" by (simp only: of_nat_le_iff)
  then show "real n + 1 \<le> 2 ^ bits n" by simp
qed

lemma binade_bounds:
  assumes "0 < x"
  shows "2 powi binade x \<le> x \<and> x < 2 powi (binade x + 1)"
proof (cases "1 \<le> x")
  case True
  define n where "n = nat \<lfloor>x\<rfloor>"
  have n: "0 < n" "real n \<le> x" "x < real n + 1"
    using True by (simp_all add: n_def)
  note bb = bits_bounds_real[OF n(1)]
  have bp: "0 < bits n" using n(1) by (rule bits_pos)
  have e: "binade x = int (bits n) - 1" using True by (simp add: binade_def n_def)
  have p1: "(2::real) powi (int (bits n) - 1) = 2 ^ (bits n - 1)"
    using bp by (simp add: power_int_def nat_diff_distrib')
  have p2: "(2::real) powi (int (bits n) - 1 + 1) = 2 ^ bits n"
    by (simp add: power_int_def)
  show ?thesis unfolding e p1 p2 using bb n by linarith
next
  case False
  define y where "y = 1 / x"
  define n where "n = nat (\<lceil>y\<rceil> - 1)"
  have y: "1 < y" using False assms by (simp add: y_def)
  then have c: "2 \<le> \<lceil>y\<rceil>" by linarith
  have n: "0 < n" "real n < y" "y \<le> real n + 1"
    using c by (simp_all add: n_def) linarith+
  note bb = bits_bounds_real[OF n(1)]
  have bp: "0 < bits n" using n(1) by (rule bits_pos)
  have e: "binade x = - int (bits n)" using False by (simp add: binade_def n_def y_def)
  have p1: "(2::real) powi (- int (bits n)) = 1 / 2 ^ bits n"
    by (simp add: power_int_def field_simps)
  have p2: "(2::real) powi (- int (bits n) + 1) = 1 / 2 ^ (bits n - 1)"
    using bp by (simp add: power_int_def nat_diff_distrib' field_simps)
  have x: "x = 1 / y" using assms by (simp add: y_def)
  have yle: "y \<le> 2 ^ bits n" using bb(2) n(3) by linarith
  have ygt: "2 ^ (bits n - 1) < y" using bb(1) n(2) by linarith
  have "1 / 2 ^ bits n \<le> 1 / y"
    using yle y by (intro divide_left_mono) simp_all
  moreover have "1 / y < 1 / 2 ^ (bits n - 1)"
    using ygt y by (intro divide_strict_left_mono) simp_all
  moreover have "2 powi binade x = 1 / (2::real) ^ bits n"
    "2 powi (binade x + 1) = 1 / (2::real) ^ (bits n - 1)"
    using p1 p2 by (simp_all add: e)
  ultimately show ?thesis using x by simp
qed

lemma binade_unique:
  assumes "0 < x" "2 powi e \<le> x" "x < 2 powi (e + 1)"
  shows "binade x = e"
proof (rule ccontr)
  assume ne: "binade x \<noteq> e"
  note b = binade_bounds[OF assms(1)]
  show False
  proof (cases "binade x < e")
    case True
    then have "(2::real) powi (binade x + 1) \<le> 2 powi e"
      by (intro power_int_increasing) simp_all
    with b assms(2) show False by linarith
  next
    case False
    with ne have "e + 1 \<le> binade x" by simp
    then have "(2::real) powi (e + 1) \<le> 2 powi binade x"
      by (intro power_int_increasing) simp_all
    with b assms(3) show False by linarith
  qed
qed

lemma to_double_eval:
  assumes "0 < x" "2 powi e \<le> x" "x < 2 powi (e + 1)"
  shows "to_double x = of_int (round_half_even (x / 2 powi (e - 52))) * 2 powi (e - 52)"
  using assms binade_unique[OF assms] by (simp add: to_double_def ulp_def)

lemma to_double_0 [simp]: "to_double 0 = 0"
  by (simp add: to_double_def)

lemma rhe_int [simp]: "round_half_even (of_int k) = k"
  by (simp add: round_half_even_def)

lemma rhe_ge_floor: "\<lfloor>q\<rfloor> \<le> round_half_even q"
  by (simp add: round_half_even_def Let_def)

lemma rhe_ge: "of_int z \<le> q \<Longrightarrow> z \<le> round_half_even q"
proof -
  assume "of_int z \<le> q"
  then have "z \<le> \<lfloor>q\<rfloor>" by (simp add: le_floor_iff)
  with rhe_ge_floor[of q] show ?thesis by linarith
qed

lemma rhe_less:
  assumes "q < of_int z - 1 / 2"
  shows "round_half_even q \<le> z - 1"
proof -
  have f: "\<lfloor>q\<rfloor> \<le> z - 1" using assms by (simp add: floor_le_iff) linarith
  show ?thesis
  proof (cases "\<lfloor>q\<rfloor> = z - 1")
    case True
    then have "q - of_int \<lfloor>q\<rfloor> < 1 / 2" using assms by simp
    then show ?thesis using True by (simp add: round_half_even_def Let_def)
  next
    case False
    with f have "\<lfloor>q\<rfloor> + 1 \<le> z - 1" by simp
    then show ?thesis by (simp add: round_half_even_def Let_def)
  qed
qed

lemma ulp_pos [simp]: "0 < ulp x"
  by (simp add: ulp_def)

lemma ulp_nz [simp]: "ulp x \<noteq> 0"
  by (simp add: ulp_def)

lemma to_double_pos: "0 < x \<Longrightarrow> to_double x = of_int (round_half_even (x / ulp x)) * ulp x"
  by (simp add: to_double_def Let_def ulp_def)

lemma binade_mono:
  assumes "0 < y" "y \<le> x"
  shows "binade y \<le> binade x"
proof (rule ccontr)
  assume "\<not> binade y \<le> binade x"
  then have "binade x + 1 \<le> binade y" by simp
  then have "(2::real) powi (binade x + 1) \<le> 2 powi binade y"
    by (intro power_int_increasing) simp_all
  with binade_bounds[OF assms(1)] binade_bounds[of x] assms show False by linarith
qed

lemma binade_le_52:
  assumes "0 < x" "x < 2 ^ 53"
  shows "binade x \<le> 52"
proof (rule ccontr)
  assume "\<not> binade x \<le> 52"
  then have "53 \<le> binade x" by simp
  then have "(2::real) powi 53 \<le> 2 powi binade x"
    by (intro power_int_increasing) simp_all
  with binade_bounds[OF assms(1)] assms(2) show False by simp
qed

text \<open>A non-negative power of two is an integer.\<close>

lemma powi_nonneg_int: "0 \<le> e \<Longrightarrow> \<exists>k::int. 0 < k \<and> (2::real) powi e = of_int k"
  by (rule exI[of _ "2 ^ nat e"]) (simp add: power_int_def)

lemma grid_refine:
  assumes "p' \<le> p"
  shows "\<exists>k'::int. of_int k * (2::real) powi p = of_int k' * 2 powi p'"
proof -
  from powi_nonneg_int[of "p - p'"] assms obtain j :: int where j: "(2::real) powi (p - p') = of_int j"
    by auto
  have "(2::real) powi p = 2 powi (p - p') * 2 powi p'"
    by (simp flip: power_int_add)
  then have "of_int k * (2::real) powi p = of_int (k * j) * 2 powi p'"
    using j by simp
  then show ?thesis by blast
qed

lemma on_grid_is_double:
  assumes "0 < x" "x = of_int k * ulp x"
  shows "to_double x = x"
proof -
  have "x / ulp x = of_int k * ulp x / ulp x" using assms(2) by simp
  also have "\<dots> = of_int k" by simp
  finally have "x / ulp x = of_int k" .
  then show ?thesis using assms by (simp add: to_double_pos)
qed

lemma double_on_grid:
  assumes "0 < x" "to_double x = x"
  shows "\<exists>k::int. x = of_int k * ulp x"
  using assms by (metis to_double_pos)

lemma coarse_grid_is_double:
  assumes "0 < y" "y = of_int k * 2 powi p" "binade y - 52 \<le> p"
  shows "to_double y = y"
proof -
  from grid_refine[OF assms(3), of k] obtain k' :: int
    where "of_int k * (2::real) powi p = of_int k' * 2 powi (binade y - 52)" by blast
  then have "y = of_int k' * ulp y" using assms(2) by (simp add: ulp_def)
  with assms(1) show ?thesis by (rule on_grid_is_double)
qed

lemma int_is_double:
  assumes "0 \<le> j" "of_int j < (2::real) ^ 53"
  shows "to_double (of_int j) = of_int j"
proof (cases "j = 0")
  case True
  then show ?thesis by simp
next
  case False
  with assms have pos: "(0::real) < of_int j" by simp
  have "binade (of_int j) - 52 \<le> 0" using binade_le_52[OF pos assms(2)] by simp
  with coarse_grid_is_double[OF pos, of j 0] show ?thesis by simp
qed

lemma sub_int_is_double:
  assumes d: "to_double x = x" and x: "0 < x" "x < 2 ^ 53"
    and y: "0 \<le> x - of_int j" "x - of_int j \<le> x"
  shows "to_double (x - of_int j) = x - of_int j"
proof (cases "x - of_int j = 0")
  case True
  then show ?thesis by simp
next
  case False
  with y have pos: "0 < x - of_int j" by simp
  from double_on_grid[OF x(1) d] obtain k :: int where k: "x = of_int k * ulp x" by blast
  define p where "p = binade x - 52"
  have p: "p \<le> 0" using binade_le_52[OF x] by (simp add: p_def)
  from powi_nonneg_int[of "- p"] p obtain i :: int where i: "(2::real) powi (- p) = of_int i" by auto
  have "(2::real) powi (- p) * 2 powi p = 1" by (simp flip: power_int_add)
  then have one: "of_int i * (2::real) powi p = 1" using i by simp
  have "x - of_int j = of_int k * 2 powi p - of_int j * (of_int i * 2 powi p)"
    using k one by (simp add: ulp_def p_def)
  also have "\<dots> = of_int (k - j * i) * 2 powi p" by (simp add: algebra_simps)
  finally have g: "x - of_int j = of_int (k - j * i) * 2 powi p" .
  have "binade (x - of_int j) \<le> binade x" using pos y(2) by (rule binade_mono)
  then have "binade (x - of_int j) - 52 \<le> p" by (simp add: p_def)
  with pos g show ?thesis by (rule coarse_grid_is_double)
qed

subsection \<open>Where rounding does not show\<close>

text \<open>
  Below \<open>2^53\<close> every integer is a double, and so is the difference of a double and a
  smaller non-negative integer: the products and the differences of the formatter are
  exact there. A quotient is rounded, but never across an integer.
\<close>

lemma to_double_nonneg: "0 \<le> x \<Longrightarrow> 0 \<le> to_double x"
proof (cases "x = 0")
  case True then show ?thesis by simp
next
  case False
  assume "0 \<le> x"
  with False have x: "0 < x" by simp
  have "0 \<le> x / ulp x" using x ulp_pos[of x] by (intro divide_nonneg_pos) simp_all
  then have "0 \<le> round_half_even (x / ulp x)" using rhe_ge[of 0 "x / ulp x"] by simp
  then have "(0::real) \<le> of_int (round_half_even (x / ulp x))" by (simp only: of_int_0_le_iff)
  then have "0 \<le> of_int (round_half_even (x / ulp x)) * ulp x"
    using less_imp_le[OF ulp_pos[of x]] by (intro mult_nonneg_nonneg) simp_all
  then show ?thesis using x by (simp only: to_double_pos)
qed

text \<open>Rounding never crosses an integer from above: below 2^53 the integers are doubles.\<close>

lemma to_double_lower:
  assumes x: "0 < x" "x < 2 ^ 53" and n: "of_int n \<le> x"
  shows "of_int n \<le> to_double x"
proof -
  define p where "p = binade x - 52"
  have p: "p \<le> 0" using binade_le_52[OF x] by (simp add: p_def)
  have u: "ulp x = 2 powi p" by (simp add: ulp_def p_def)
  from powi_nonneg_int[of "- p"] p obtain i :: int where i: "(2::real) powi (- p) = of_int i" by auto
  have "(2::real) powi (- p) * 2 powi p = 1" by (simp flip: power_int_add)
  then have one: "of_int i * ulp x = 1" using i u by simp
  have "of_int (n * i) * ulp x = of_int n * (of_int i * ulp x)" by simp
  also have "\<dots> = of_int n" using one by simp
  finally have ni: "of_int (n * i) * ulp x = of_int n" .
  have "of_int (n * i) * ulp x \<le> x" using n by (simp only: ni)
  then have "of_int (n * i) \<le> x / ulp x" using ulp_pos[of x] by (simp add: pos_le_divide_eq)
  then have "n * i \<le> round_half_even (x / ulp x)" by (rule rhe_ge)
  then have "(of_int (n * i) :: real) \<le> of_int (round_half_even (x / ulp x))" by (simp only: of_int_le_iff)
  then have "of_int (n * i) * ulp x \<le> of_int (round_half_even (x / ulp x)) * ulp x"
    using ulp_pos[of x] by (simp only: mult_le_cancel_right_pos)
  then have "of_int n \<le> of_int (round_half_even (x / ulp x)) * ulp x" by (simp only: ni)
  then show ?thesis by (simp only: to_double_pos[OF x(1)])
qed

text \<open>The quotient of a double by a positive integer, rounded, stays below every integer
  that the exact quotient is below.\<close>

lemma to_double_div_upper:
  assumes d: "to_double r = r" and r: "0 < r" "r < 2 ^ 53"
    and c: "1 \<le> c" and N: "r < of_int c * of_int N"
  shows "to_double (r / of_int c) < of_int N"
proof -
  define x where "x = r / of_int c"
  have cpos: "(0::real) < of_int c" and cge: "(1::real) \<le> of_int c" using c by simp_all
  have xpos: "0 < x" using r cpos by (simp add: x_def)
  have "x \<le> r" using r cge by (simp add: x_def field_simps)
  then have x53: "x < 2 ^ 53" using r by simp
  define p where "p = binade r - 52"
  define e where "e = binade x"
  have p: "p \<le> 0" using binade_le_52[OF r] by (simp add: p_def)
  have e: "e \<le> 52" using binade_le_52[OF xpos x53] by (simp add: e_def)
  have u: "ulp x = 2 powi (e - 52)" by (simp add: ulp_def e_def)
  from double_on_grid[OF r(1) d] obtain k :: int where k: "r = of_int k * 2 powi p"
    by (auto simp: ulp_def p_def)
  from powi_nonneg_int[of "- p"] p obtain i :: int where i: "(2::real) powi (- p) = of_int i" by auto
  have "(2::real) powi (- p) * 2 powi p = 1" by (simp flip: power_int_add)
  then have one: "of_int i * (2::real) powi p = 1" using i by simp
  have "of_int c * of_int N - r = of_int (c * N) * (of_int i * 2 powi p) - of_int k * 2 powi p"
    using k one by simp
  also have "\<dots> = of_int (c * N * i - k) * 2 powi p" by (simp add: algebra_simps)
  finally have g: "of_int c * of_int N - r = of_int (c * N * i - k) * 2 powi p" .
  have "0 < of_int (c * N * i - k) * (2::real) powi p" using g N by simp
  moreover have "(0::real) < 2 powi p" by simp
  ultimately have "(0::real) < of_int (c * N * i - k)" by (simp only: zero_less_mult_pos2)
  then have "0 < c * N * i - k" by (simp only: of_int_0_less_iff)
  then have "1 \<le> c * N * i - k" by simp
  then have "(1::real) \<le> of_int (c * N * i - k)" by (simp only: of_int_1_le_iff)
  then have "1 * (2::real) powi p \<le> of_int (c * N * i - k) * 2 powi p"
    by (simp only: mult_le_cancel_right_pos zero_less_power_int zero_less_numeral) 
  then have gap: "2 powi p \<le> of_int c * of_int N - r" using g by simp
  have "2 powi e \<le> x" using binade_bounds[OF xpos] by (simp add: e_def)
  then have "of_int c * 2 powi e \<le> of_int c * x" using cpos by simp
  also have "of_int c * x = r" using cpos by (simp add: x_def)
  also have "r < 2 powi (binade r + 1)" using binade_bounds[OF r(1)] by simp
  also have "(2::real) powi (binade r + 1) = 2 powi p * 2 ^ 53"
    by (simp add: p_def power_int_add power_int_diff)
  finally have "of_int c * 2 powi e < (2::real) powi p * 2 ^ 53" .
  moreover have "(2::real) powi e = 2 powi (e - 52) * 2 ^ 52" by (simp add: power_int_diff)
  ultimately have "of_int c * (ulp x * 2 ^ 52) < 2 powi p * 2 ^ 53" using u by simp
  then have "of_int c * (ulp x / 2) < 2 powi p" by (simp add: mult.commute)
  with gap have "of_int c * (ulp x / 2) < of_int c * of_int N - r" by linarith
  also have "\<dots> = of_int c * (of_int N - x)" using cpos by (simp add: x_def algebra_simps)
  finally have "ulp x / 2 < of_int N - x" using cpos by simp
  then have xN: "x < of_int N - ulp x / 2" by simp
  from powi_nonneg_int[of "52 - e"] e obtain j :: int where j: "(2::real) powi (52 - e) = of_int j" by auto
  have "(2::real) powi (52 - e) * 2 powi (e - 52) = 1" by (simp flip: power_int_add)
  then have onej: "of_int j * ulp x = 1" using j u by simp
  have "of_int (N * j) * ulp x = of_int N * (of_int j * ulp x)" by simp
  also have "\<dots> = of_int N" using onej by simp
  finally have Nj: "of_int (N * j) * ulp x = of_int N" .
  have "(of_int (N * j) - 1 / 2) * ulp x = of_int (N * j) * ulp x - ulp x / 2"
    by (simp add: left_diff_distrib)
  then have "x < (of_int (N * j) - 1 / 2) * ulp x" using xN by (simp only: Nj)
  then have "x / ulp x < of_int (N * j) - 1 / 2" using ulp_pos[of x] by (simp only: pos_divide_less_eq)
  then have "round_half_even (x / ulp x) \<le> N * j - 1" by (rule rhe_less)
  then have "(of_int (round_half_even (x / ulp x)) :: real) \<le> of_int (N * j - 1)" by (simp only: of_int_le_iff)
  then have "of_int (round_half_even (x / ulp x)) * ulp x \<le> of_int (N * j - 1) * ulp x"
    using ulp_pos[of x] by (simp only: mult_le_cancel_right_pos)
  also have "\<dots> = of_int (N * j) * ulp x - ulp x" by (simp add: left_diff_distrib)
  also have "\<dots> = of_int N - ulp x" by (simp only: Nj)
  also have "\<dots> < of_int N" using ulp_pos[of x] by simp
  finally show ?thesis using xpos by (simp add: to_double_pos x_def)
qed

lemma floor_to_double_div:
  assumes d: "to_double r = r" and r: "0 \<le> r" "r < 2 ^ 53" and c: "1 \<le> c"
  shows "\<lfloor>to_double (r / of_int c)\<rfloor> = \<lfloor>r / of_int c\<rfloor>"
proof (cases "r = 0")
  case True then show ?thesis by simp
next
  case False
  with r have rpos: "0 < r" by simp
  have cpos: "(0::real) < of_int c" and cge: "(1::real) \<le> of_int c" using c by simp_all
  define n where "n = \<lfloor>r / of_int c\<rfloor>"
  have xpos: "0 < r / of_int c" using rpos cpos by simp
  have "r / of_int c \<le> r" using rpos cge by (simp add: field_simps)
  then have x53: "r / of_int c < 2 ^ 53" using r by simp
  have lo: "of_int n \<le> to_double (r / of_int c)"
    using xpos x53 by (rule to_double_lower) (simp add: n_def)
  have "r / of_int c < of_int (n + 1)" unfolding n_def by linarith
  then have "r < of_int c * of_int (n + 1)" using cpos by (simp add: pos_divide_less_eq mult.commute)
  with d rpos r(2) c have "to_double (r / of_int c) < of_int (n + 1)" by (rule to_double_div_upper)
  with lo have "\<lfloor>to_double (r / of_int c)\<rfloor> = n" by (simp add: floor_unique)
  then show ?thesis by (simp add: n_def)
qed

lemma double_3725: "to_double 3725 = 3725"
  by (subst to_double_eval[where e = 11]) (simp_all add: round_half_even_def Let_def power_int_minus)

lemma double_119_half: "to_double (119 / 2) = 119 / 2"
  by (subst to_double_eval[where e = 5]) (simp_all add: round_half_even_def Let_def power_int_minus)

subsection \<open>The fields of the formatter\<close>

lemma digits_small: "n < 10 \<Longrightarrow> digits n = [digit_char n]"
  by (subst digits.simps) simp

lemma digits_two:
  "10 \<le> n \<Longrightarrow> n < 100 \<Longrightarrow> digits n = [digit_char (n div 10), digit_char (n mod 10)]"
  by (subst digits.simps) (simp add: digits_small)

lemma padStart_two_digits:
  assumes "0 \<le> n" "n < 60"
  shows "padStart 2 CHR ''0'' (String_of n) = two_digits n"
proof (cases "nat n < 10")
  case True
  then have "nat n div 10 = 0" "nat n mod 10 = nat n" by simp_all
  moreover have "digit_char 0 = CHR ''0''" by (simp add: digit_char_def)
  ultimately show ?thesis using assms True
    by (simp add: padStart_def String_of_def two_digits_def digits_small)
next
  case False
  then have "10 \<le> nat n" "nat n < 100" using assms by simp_all
  then show ?thesis using assms
    by (simp add: padStart_def String_of_def two_digits_def digits_two)
qed

lemma minutes_eq:
  "\<lfloor>(t - of_int \<lfloor>t / 3600\<rfloor> * 3600) / 60\<rfloor> = \<lfloor>fmod t 3600 / 60\<rfloor>"
  by (simp add: fmod_def mult.commute)

lemma floor_60:
  "\<lfloor>t / 60\<rfloor> = 60 * \<lfloor>t / 3600\<rfloor> + \<lfloor>(t - of_int \<lfloor>t / 3600\<rfloor> * 3600) / 60\<rfloor>" for t :: real
proof -
  have "(t - of_int \<lfloor>t / 3600\<rfloor> * 3600) / 60 = t / 60 - of_int (60 * \<lfloor>t / 3600\<rfloor>)"
    by (simp add: field_simps)
  then have "\<lfloor>(t - of_int \<lfloor>t / 3600\<rfloor> * 3600) / 60\<rfloor> = \<lfloor>t / 60\<rfloor> - 60 * \<lfloor>t / 3600\<rfloor>"
    by (metis floor_diff_of_int)
  then show ?thesis by simp
qed

lemma seconds_eq:
  "\<lfloor>t - of_int \<lfloor>t / 3600\<rfloor> * 3600 - of_int \<lfloor>(t - of_int \<lfloor>t / 3600\<rfloor> * 3600) / 60\<rfloor> * 60\<rfloor>
     = \<lfloor>fmod t 60\<rfloor>"
proof -
  have "of_int \<lfloor>t / 3600\<rfloor> * 3600 + of_int \<lfloor>(t - of_int \<lfloor>t / 3600\<rfloor> * 3600) / 60\<rfloor> * 60
        = (60::real) * of_int \<lfloor>t / 60\<rfloor>"
    using arg_cong[OF floor_60[of t], of real_of_int] by simp
  then show ?thesis by (simp add: fmod_def algebra_simps)
qed

lemma spec_M_range: "0 \<le> spec_M t \<and> spec_M t < 60"
proof -
  have "0 \<le> fmod t 3600 \<and> fmod t 3600 < 3600"
    unfolding fmod_def using floor_correct[of "t / 3600"] by (simp add: field_simps)
  then show ?thesis unfolding spec_M_def by (simp add: floor_less_iff)
qed

lemma spec_S_range: "0 \<le> spec_S t \<and> spec_S t < 60"
proof -
  have "0 \<le> fmod t 60 \<and> fmod t 60 < 60"
    unfolding fmod_def using floor_correct[of "t / 60"] by (simp add: field_simps)
  then show ?thesis unfolding spec_S_def by (simp add: floor_less_iff)
qed

lemma hours_zero_iff: "0 \<le> t \<Longrightarrow> (\<lfloor>t / 3600\<rfloor> \<noteq> 0) = (3600 \<le> t)" for t :: real
proof -
  assume "0 \<le> t"
  then have "0 \<le> \<lfloor>t / 3600\<rfloor>" by simp
  moreover have "(1 \<le> \<lfloor>t / 3600\<rfloor>) = (3600 \<le> t)" by (simp add: le_floor_iff)
  ultimately show ?thesis by linarith
qed

lemma fields_exact:
  assumes d: "to_double t = t" and t: "0 \<le> t" "t < 2 ^ 53"
  shows "formatTime_fields t =
     (\<lfloor>t / 3600\<rfloor>, \<lfloor>(t - of_int \<lfloor>t / 3600\<rfloor> * 3600) / 60\<rfloor>,
      \<lfloor>t - of_int \<lfloor>t / 3600\<rfloor> * 3600 - of_int \<lfloor>(t - of_int \<lfloor>t / 3600\<rfloor> * 3600) / 60\<rfloor> * 60\<rfloor>)"
proof -
  define h where "h = \<lfloor>t / 3600\<rfloor>"
  define r where "r = t - of_int h * 3600"
  define m where "m = \<lfloor>r / 60\<rfloor>"
  have H: "\<lfloor>to_double (t / 3600)\<rfloor> = h"
    using floor_to_double_div[OF d t, of 3600] by (simp add: h_def)
  have h0: "0 \<le> h" using t by (simp add: h_def)
  have "of_int h \<le> t / 3600" "t / 3600 < of_int h + 1" unfolding h_def by linarith+
  then have r0: "0 \<le> r" and r3600: "r < 3600" by (simp_all add: r_def field_simps)
  have rt: "r \<le> t" using h0 by (simp add: r_def)
  have r53: "r < 2 ^ 53" using rt t by simp
  have "to_double (of_int (h * 3600)) = of_int (h * 3600)"
    using h0 r0 t by (intro int_is_double) (simp_all add: r_def)
  then have h3600: "to_double (of_int h * 3600) = of_int h * 3600" by simp
  have dr: "to_double r = r"
  proof (cases "t = 0")
    case True
    then show ?thesis by (simp add: r_def h_def)
  next
    case False
    with t have "0 < t" by simp
    from sub_int_is_double[OF d this t(2), of "h * 3600"] r0 rt show ?thesis by (simp add: r_def)
  qed
  have M: "\<lfloor>to_double (r / 60)\<rfloor> = m"
    using floor_to_double_div[OF dr r0 r53, of 60] by (simp add: m_def)
  have m0: "0 \<le> m" using r0 by (simp add: m_def)
  have "of_int m \<le> r / 60" unfolding m_def by linarith
  then have s0: "0 \<le> r - of_int m * 60" by (simp add: field_simps)
  have sr: "r - of_int m * 60 \<le> r" using m0 by simp
  have "to_double (of_int (m * 60)) = of_int (m * 60)"
    using m0 s0 r53 by (intro int_is_double) simp_all
  then have m60: "to_double (of_int m * 60) = of_int m * 60" by simp
  have ds: "to_double (r - of_int m * 60) = r - of_int m * 60"
  proof (cases "r = 0")
    case True
    then show ?thesis by (simp add: m_def)
  next
    case False
    with r0 have "0 < r" by simp
    from sub_int_is_double[OF dr this r53, of "m * 60"] s0 sr show ?thesis by simp
  qed
  have "formatTime_fields t = (h, m, \<lfloor>r - of_int m * 60\<rfloor>)"
    unfolding formatTime_fields_def Let_def H h3600 r_def[symmetric] dr M m60 ds ..
  then show ?thesis by (simp add: h_def r_def m_def)
qed

subsection \<open>The formatter at \<open>10^21\<close>\<close>

lemma double_1e21: "to_double (10 ^ 21) = 10 ^ 21"
  by (subst to_double_eval[where e = 69]) (simp_all add: round_half_even_def Let_def power_int_minus)

lemma quotient_1e21: "to_double (10 ^ 21 / 3600) = 277777777777777792"
  by (subst to_double_eval[where e = 57]) (simp_all add: round_half_even_def Let_def)

lemma product_1e21: "to_double (277777777777777792 * 3600) = 10 ^ 21"
  by (subst to_double_eval[where e = 69]) (simp_all add: round_half_even_def Let_def)

lemma fields_1e21: "formatTime_fields (10 ^ 21) = (277777777777777792, 0, 0)"
proof -
  have h: "\<lfloor>to_double (10 ^ 21 / 3600)\<rfloor> = 277777777777777792"
    unfolding quotient_1e21 by simp
  have p: "to_double (of_int 277777777777777792 * 3600) = 10 ^ 21"
    using product_1e21 by simp
  show ?thesis
    unfolding formatTime_fields_def Let_def h p by simp
qed

lemma spec_1e21: "spec_H (10 ^ 21) = 277777777777777777 \<and> spec_M (10 ^ 21) = 46 \<and> spec_S (10 ^ 21) = 40"
  by (simp add: spec_H_def spec_M_def spec_S_def fmod_def)

lemma String_of_0: "String_of 0 = ''0''"
  by (simp add: String_of_def digits_small digit_char_def)

lemma formatTime_1e21: "formatTime (10 ^ 21) = String_of 277777777777777792 @ '':00:00''"
  unfolding formatTime_def fields_1e21 by (simp add: String_of_0 padStart_def)

lemma spec_formatTime_1e21: "spec_formatTime (10 ^ 21) = String_of 277777777777777777 @ '':46:40''"
proof -
  have "spec_H (10 ^ 21) = 277777777777777777" "spec_M (10 ^ 21) = 46" "spec_S (10 ^ 21) = 40"
    using spec_1e21 by simp_all
  then show ?thesis
    unfolding spec_formatTime_def by (simp add: two_digits_def digit_char_def)
qed

text \<open>
  C10, as the claim states it for every non-negative finite time, fails: the code computes
  in doubles. \<open>10^21\<close> is a double. \<open>10^21 / 3600\<close> lies between \<open>2^57\<close> and \<open>2^58\<close>, where
  the doubles are the multiples of 32, and rounds to \<open>277777777777777792\<close>, fifteen above
  \<open>floor(10^21 / 3600) = 277777777777777777\<close>; \<open>hours * 3600\<close> then rounds back to
  \<open>10^21\<close>, so the minutes and the seconds are computed from a remainder of zero and the
  text that \<open>formatTime\<close> returns ends in \<open>:00:00\<close>, where the claim has
  \<open>M = floor((10^21 mod 3600) / 60) = 46\<close> and \<open>S = floor(10^21 mod 60) = 40\<close>.
\<close>

theorem formatTime_double_counterexample:
  "to_double (10 ^ 21) = 10 ^ 21
     \<and> formatTime_fields (10 ^ 21) = (277777777777777792, 0, 0)
     \<and> (spec_H (10 ^ 21), spec_M (10 ^ 21), spec_S (10 ^ 21)) = (277777777777777777, 46, 40)
     \<and> drop (length (formatTime (10 ^ 21)) - 6) (formatTime (10 ^ 21)) = '':00:00''
     \<and> drop (length (spec_formatTime (10 ^ 21)) - 6) (spec_formatTime (10 ^ 21)) = '':46:40''"
  unfolding formatTime_1e21 spec_formatTime_1e21
  using double_1e21 fields_1e21 spec_1e21 by simp

text \<open>
  C10, amended. For every double \<open>t\<close> with \<open>0 \<le> t < 2^53\<close> seconds (some 285 million
  years), \<open>formatTime\<close> returns \<open>H:MM:SS\<close> when \<open>t \<ge> 3600\<close> and \<open>M:SS\<close> otherwise, with
  \<open>H = floor(t / 3600)\<close>, \<open>M = floor((t mod 3600) / 60)\<close> and \<open>S = floor(t mod 60)\<close> taken in
  exact arithmetic; the minutes of the long form and the seconds are two digits (both lie
  in \<open>0..59\<close>, so the padding yields exactly a tens and a units digit), and the leading
  field is the plain decimal numeral. Below \<open>2^53\<close> the two products and the two
  differences of the code are doubles themselves, and the two rounded quotients have the
  floor of the exact ones.
\<close>

theorem formatTime_spec:
  "to_double t = t \<Longrightarrow> 0 \<le> t \<Longrightarrow> t < 2 ^ 53 \<Longrightarrow> formatTime t = spec_formatTime t
     \<and> 0 \<le> spec_M t \<and> spec_M t < 60 \<and> 0 \<le> spec_S t \<and> spec_S t < 60
     \<and> length (two_digits (spec_M t)) = 2 \<and> length (two_digits (spec_S t)) = 2"
proof -
  assume d: "to_double t = t" and t: "0 \<le> t" and t53: "t < 2 ^ 53"
  have M: "\<lfloor>(t - of_int \<lfloor>t / 3600\<rfloor> * 3600) / 60\<rfloor> = spec_M t"
    by (simp add: minutes_eq spec_M_def)
  have S: "\<lfloor>t - of_int \<lfloor>t / 3600\<rfloor> * 3600 - of_int (spec_M t) * 60\<rfloor> = spec_S t"
    using seconds_eq[of t] by (simp add: M spec_S_def)
  have F: "formatTime_fields t = (\<lfloor>t / 3600\<rfloor>, spec_M t, spec_S t)"
    unfolding fields_exact[OF d t t53] M S ..
  have "formatTime t = spec_formatTime t"
    unfolding formatTime_def spec_formatTime_def F
    using hours_zero_iff[OF t] spec_M_range[of t] spec_S_range[of t]
    by (simp add: padStart_two_digits spec_H_def)
  then show ?thesis using spec_M_range[of t] spec_S_range[of t] by (simp add: two_digits_def)
qed

theorem formatTime_spec_witness:
  "to_double 3725 = 3725 \<and> (0::real) \<le> 3725 \<and> (3725::real) < 2 ^ 53
     \<and> formatTime 3725 = spec_formatTime 3725 \<and> spec_formatTime 3725 = ''1:02:05''
     \<and> to_double (119 / 2) = 119 / 2 \<and> formatTime (119 / 2) = spec_formatTime (119 / 2)
     \<and> spec_formatTime (119 / 2) = ''0:59''"
proof -
  have "spec_formatTime 3725 = ''1:02:05''"
    by (simp add: spec_formatTime_def spec_H_def spec_M_def spec_S_def fmod_def
        String_of_def two_digits_def digits.simps digit_char_def)
  moreover have "spec_formatTime (119 / 2) = ''0:59''"
    by (simp add: spec_formatTime_def spec_H_def spec_M_def spec_S_def fmod_def
        String_of_def two_digits_def digits.simps digit_char_def)
  ultimately show ?thesis
    using formatTime_spec[of 3725] formatTime_spec[of "119 / 2"] double_3725 double_119_half by simp
qed

section \<open>The preview lookup\<close>

lemma preview_scan_Some:
  "preview_scan c q = Some f \<Longrightarrow>
     \<exists>i < length c. c ! i = f \<and> js_ge (Num (timecode f)) q
        \<and> (\<forall>j < i. \<not> js_ge (Num (timecode (c ! j))) q)"
proof (induction c)
  case Nil
  then show ?case by simp
next
  case (Cons a c)
  show ?case
  proof (cases "js_ge (Num (timecode a)) q")
    case True
    with Cons.prems have "a = f" by simp
    with True show ?thesis by (intro exI[of _ 0]) simp
  next
    case False
    with Cons.prems have "preview_scan c q = Some f" by simp
    from Cons.IH[OF this] obtain i where i: "i < length c" "c ! i = f"
      "js_ge (Num (timecode f)) q" "\<forall>j < i. \<not> js_ge (Num (timecode (c ! j))) q" by blast
    have "\<forall>j < Suc i. \<not> js_ge (Num (timecode ((a # c) ! j))) q"
      using False i(4) by (auto simp: less_Suc_eq_0_disj)
    with i show ?thesis by (intro exI[of _ "Suc i"]) simp
  qed
qed

lemma preview_scan_None:
  "(preview_scan c q = None) = (\<forall>f \<in> set c. \<not> js_ge (Num (timecode f)) q)"
  by (induction c) auto

text \<open>
  C2. For every cache \<open>c\<close> and every query \<open>q\<close> (a number, \<open>NaN\<close> included), the lookup
  stops at the first cached frame whose timecode is \<open>>= q\<close>: the frame at some index
  \<open>i\<close> with no frame before it at or after the query, and its image becomes the
  preview of the animation loop (both seek bars) and of \<open>updateseekBarPopover\<close>. When
  no cached frame has a timecode \<open>>= q\<close> the lookup finds none and the preview image
  displayed before is left as it was.
\<close>

theorem lookup_first_at_or_after:
  "(case preview_scan c q of
      Some f \<Rightarrow> (\<exists>i < length c. c ! i = f \<and> js_ge (Num (timecode f)) q
                    \<and> (\<forall>j < i. \<not> js_ge (Num (timecode (c ! j))) q))
                \<and> animationLoop_popover c (Some q) p
                    = p\<lparr> seekBar_previewImageSrc := image f, mobileSeekBar_previewImageSrc := image f \<rparr>
                \<and> updateseekBarPopover c q src = image f
    | None \<Rightarrow> (\<forall>f \<in> set c. \<not> js_ge (Num (timecode f)) q)
                \<and> animationLoop_popover c (Some q) p = p
                \<and> updateseekBarPopover c q src = src)"
proof (cases "preview_scan c q")
  case None
  then show ?thesis using preview_scan_None[of c q]
    by (simp add: animationLoop_popover_def updateseekBarPopover_def ToNumber_def)
next
  case (Some f)
  then show ?thesis using preview_scan_Some[OF Some]
    by (simp add: animationLoop_popover_def updateseekBarPopover_def ToNumber_def)
qed

theorem lookup_first_at_or_after_witness:
  "preview_scan [\<lparr>timecode = 10, image = ''a''\<rparr>, \<lparr>timecode = 20, image = ''b''\<rparr>,
                 \<lparr>timecode = 40, image = ''c''\<rparr>] (Num 12) = Some \<lparr>timecode = 20, image = ''b''\<rparr>
   \<and> updateseekBarPopover [\<lparr>timecode = 10, image = ''a''\<rparr>, \<lparr>timecode = 20, image = ''b''\<rparr>,
                 \<lparr>timecode = 40, image = ''c''\<rparr>] (Num 12) ''old'' = ''b''
   \<and> animationLoop_popover [\<lparr>timecode = 10, image = ''a''\<rparr>, \<lparr>timecode = 20, image = ''b''\<rparr>,
                 \<lparr>timecode = 40, image = ''c''\<rparr>] (Some (Num 12))
         \<lparr>seekBar_previewImageSrc = ''old'', mobileSeekBar_previewImageSrc = ''old''\<rparr>
       = \<lparr>seekBar_previewImageSrc = ''b'', mobileSeekBar_previewImageSrc = ''b''\<rparr>
   \<and> preview_scan [\<lparr>timecode = 10, image = ''a''\<rparr>, \<lparr>timecode = 20, image = ''b''\<rparr>,
                 \<lparr>timecode = 40, image = ''c''\<rparr>] (Num 41) = None
   \<and> updateseekBarPopover [\<lparr>timecode = 10, image = ''a''\<rparr>, \<lparr>timecode = 20, image = ''b''\<rparr>,
                 \<lparr>timecode = 40, image = ''c''\<rparr>] (Num 41) ''old'' = ''old''"
  using lookup_first_at_or_after[of "[\<lparr>timecode = 10, image = ''a''\<rparr>, \<lparr>timecode = 20, image = ''b''\<rparr>,
                 \<lparr>timecode = 40, image = ''c''\<rparr>]" "Num 12"
                 "\<lparr>seekBar_previewImageSrc = ''old'', mobileSeekBar_previewImageSrc = ''old''\<rparr>" "''old''"]
        lookup_first_at_or_after[of "[\<lparr>timecode = 10, image = ''a''\<rparr>, \<lparr>timecode = 20, image = ''b''\<rparr>,
                 \<lparr>timecode = 40, image = ''c''\<rparr>]" "Num 41"
                 "\<lparr>seekBar_previewImageSrc = ''old'', mobileSeekBar_previewImageSrc = ''old''\<rparr>" "''old''"]
  by simp

section \<open>The gesture mapper\<close>

lemma clamp_range: "0 \<le> w \<Longrightarrow> 0 \<le> clamp 0 x w \<and> clamp 0 x w \<le> w"
  by (simp add: clamp_def)

lemma fraction_range:
  assumes "0 < w" "0 \<le> d"
  shows "0 \<le> clamp 0 x w / w * d \<and> clamp 0 x w / w * d \<le> d"
proof -
  have c: "0 \<le> clamp 0 x w" "clamp 0 x w \<le> w"
    using clamp_range[of w x] assms(1) by simp_all
  have f: "0 \<le> clamp 0 x w / w" "clamp 0 x w / w \<le> 1"
    using c assms(1) by simp_all
  have "clamp 0 x w / w * d \<le> 1 * d"
    using f(2) assms(2) by (rule mult_right_mono)
  moreover have "0 \<le> clamp 0 x w / w * d"
    using f(1) assms(2) by (rule mult_nonneg_nonneg)
  ultimately show ?thesis by simp
qed

text \<open>
  C3, as the claim states it, fails for the scrub pipeline: \<open>updateScrubbing\<close> does
  not clamp. With the rectangle \<open>left = 100\<close>, \<open>width = 200\<close> and the duration 100, a
  pointer at \<open>clientX = 400\<close> (the listener is on the document, so the pointer may be
  anywhere) emits the time 150, where the clamped formula gives 100; 150 lies outside
  \<open>[0, 100]\<close>.
\<close>

theorem scrub_not_clamped_counterexample:
  "updateScrubbing True (Num 100) 400 100 200 = Some (Num 150)
   \<and> clamp 0 (400 - 100) 200 / 200 * 100 = 100
   \<and> \<not> (150 \<le> (100::real))"
  by (simp add: updateScrubbing_def clamp_def)

text \<open>
  C3, amended. For a rectangle of width \<open>w > 0\<close> and a known duration \<open>d \<ge> 0\<close>: the
  preview pipeline (when the element is displayed) emits
  \<open>clamp(0, clientX - left, width) / width * duration\<close>, which lies in \<open>[0, d]\<close> for
  every \<open>clientX\<close>; the scrub pipeline, while scrubbing, emits
  \<open>duration * (clientX - left) / width\<close> with no clamp. For \<open>left = 100\<close>,
  \<open>width = 200\<close>, \<open>duration = 100\<close> and \<open>clientX = 200\<close> the fraction is one half and
  both pipelines emit 50.
\<close>

theorem gesture_mapper_timecodes:
  assumes "0 < w" "0 \<le> d" "0 < ow + oh"
  shows "map_option time (previewPointermove ow oh (Num d) cx l w pw)
           = Some (Num (clamp 0 (cx - l) w / w * d))
         \<and> 0 \<le> clamp 0 (cx - l) w / w * d \<and> clamp 0 (cx - l) w / w * d \<le> d
         \<and> updateScrubbing True (Num d) cx l w = Some (Num (d * (cx - l) / w))
         \<and> map_option time (previewPointermove ow oh (Num 100) 200 100 200 pw) = Some (Num 50)
         \<and> clamp 0 (200 - 100) 200 / 200 = 1 / 2
         \<and> updateScrubbing True (Num 100) 200 100 200 = Some (Num 50)"
proof -
  have "map_option time (previewPointermove ow oh (Num d) cx l w pw)
          = Some (Num (clamp 0 (cx - l) w / w * d))"
    using assms(1,3) by (simp add: previewPointermove_def)
  moreover have "updateScrubbing True (Num d) cx l w = Some (Num (d * (cx - l) / w))"
    using assms(1) by (simp add: updateScrubbing_def)
  moreover have "map_option time (previewPointermove ow oh (Num 100) 200 100 200 pw) = Some (Num 50)"
    using assms(3) by (simp add: previewPointermove_def clamp_def)
  moreover have "clamp 0 (200 - 100) 200 / 200 = 1 / 2"
    by (simp add: clamp_def)
  moreover have "updateScrubbing True (Num 100) 200 100 200 = Some (Num 50)"
    by (simp add: updateScrubbing_def)
  ultimately show ?thesis using fraction_range[OF assms(1,2), of "cx - l"] by simp
qed

theorem gesture_mapper_timecodes_witness:
  "(0::real) < 200 \<and> (0::real) \<le> 100 \<and> (0::nat) < 200 + 10
   \<and> map_option time (previewPointermove 200 10 (Num 100) 250 100 200 50) = Some (Num 75)
   \<and> updateScrubbing True (Num 100) 250 100 200 = Some (Num 75)
   \<and> map_option time (previewPointermove 200 10 (Num 100) 200 100 200 50) = Some (Num 50)
   \<and> updateScrubbing True (Num 100) 200 100 200 = Some (Num 50)"
  using gesture_mapper_timecodes[of 200 100 200 10 250 100 50]
  by (simp add: clamp_def)

text \<open>
  C9, as the claim states it, fails. The guard of the preview listener is
  \<open>offsetWidth + offsetHeight == 0\<close>: with a zero width and a height of 10 the listener
  goes on, divides \<open>0 / 0\<close> and emits a \<open>previewtimechange\<close> whose time is \<open>NaN\<close>. The
  scrub pipeline has no guard on the width at all: with a zero width it divides
  \<open>5000 / 0\<close> and emits \<open>Infinity\<close>.
\<close>

theorem zero_width_counterexample:
  "map_option time (previewPointermove 0 10 (Num 100) 150 100 0 0) = Some NaN
   \<and> updateScrubbing True (Num 100) 150 100 0 = Some PosInf"
  by (simp add: previewPointermove_def updateScrubbing_def clamp_def)

text \<open>
  C9, amended. The preview pipeline is a no-op when the offset width and the offset
  height of the timeline element are both zero, whatever the pointer position; when
  they are not both zero and the width of its rectangle is zero, the division by the
  zero width is performed and the emitted time is \<open>NaN\<close>. The scrub pipeline emits
  nothing while no scrub is active; while one is, it divides by the width also when
  that is zero, and the emitted time is then \<open>Infinity\<close>, \<open>-Infinity\<close> or \<open>NaN\<close>.
\<close>

theorem zero_width_behaviour:
  "previewPointermove 0 0 dur cx l w pw = None
   \<and> (0 < ow + oh \<longrightarrow> map_option time (previewPointermove ow oh dur cx l 0 pw) = Some NaN)
   \<and> updateScrubbing False dur cx l w = None
   \<and> updateScrubbing True (Num d) cx l 0
       = Some (if d * (cx - l) > 0 then PosInf else if d * (cx - l) < 0 then NegInf else NaN)"
  by (simp add: previewPointermove_def updateScrubbing_def clamp_def)

theorem zero_width_behaviour_witness:
  "previewPointermove 0 0 (Num 100) 150 100 0 0 = None
   \<and> (0::nat) < 0 + 10
   \<and> map_option time (previewPointermove 0 10 (Num 100) 150 100 0 0) = Some NaN
   \<and> updateScrubbing True (Num 100) 50 100 0 = Some NegInf"
  using zero_width_behaviour[of "Num 100" 150 100 0 0 0 10 100]
        zero_width_behaviour[of "Num 100" 50 100 0 0 0 10 100]
  by simp

section \<open>Subtitle resolution\<close>

lemma subtitle_scan_first:
  "(\<exists>i < length subs. in_interval (subs ! i) t \<and> (\<forall>j < i. \<not> in_interval (subs ! j) t)
       \<and> subtitle_scan render t subs = render (sub_text (subs ! i)))
   \<or> ((\<forall>s \<in> set subs. \<not> in_interval s t) \<and> subtitle_scan render t subs = [])"
proof (induction subs)
  case Nil
  show ?case by simp
next
  case (Cons a subs)
  show ?case
  proof (cases "in_interval a t")
    case True
    then have "subtitle_scan render t (a # subs) = render (sub_text a)"
      by (simp add: in_interval_def)
    with True show ?thesis by (intro disjI1 exI[of _ 0]) simp
  next
    case False
    then have scan: "subtitle_scan render t (a # subs) = subtitle_scan render t subs"
      by (auto simp: in_interval_def)
    from Cons.IH show ?thesis
    proof (elim disjE exE conjE)
      fix i
      assume i: "i < length subs" "in_interval (subs ! i) t"
        "\<forall>j < i. \<not> in_interval (subs ! j) t"
        "subtitle_scan render t subs = render (sub_text (subs ! i))"
      have "\<forall>j < Suc i. \<not> in_interval ((a # subs) ! j) t"
        using False i(3) by (auto simp: less_Suc_eq_0_disj)
      with i scan show ?thesis by (intro disjI1 exI[of _ "Suc i"]) simp
    next
      assume "\<forall>s \<in> set subs. \<not> in_interval s t" "subtitle_scan render t subs = []"
      with False scan show ?thesis by simp
    qed
  qed
qed

text \<open>
  C4, as the claim states it, fails: the resolution is gated by the subtitles flag of
  the player, which is off until the user turns it on. With the subtitles
  \<open>[{0, 2, "a"}, {2, 4, "b"}]\<close> and \<open>currentTime = 2\<close>, a player whose flag is off
  resolves the empty content, not \<open>"b"\<close> (here with the identity for the renderers).
\<close>

theorem subtitles_disabled_counterexample:
  "animationLoop_subtitles (\<lambda>x. x) False
     (Some [\<lparr>sub_start = 0, sub_end = 2, sub_text = ''a''\<rparr>,
            \<lparr>sub_start = 2, sub_end = 4, sub_text = ''b''\<rparr>]) 2 [] = Inr ([], False)"
  by (simp add: animationLoop_subtitles_def write_if_changed_def)

text \<open>
  C4, amended. When subtitles are enabled and a track is loaded, the resolved content
  is the rendering of the first entry whose interval \<open>[start, end)\<close> contains
  \<open>currentTime\<close>, and is empty when no entry does; when subtitles are disabled it is
  empty. In both cases the container holds the resolved content after the pass and is
  written exactly when that differs from what it displayed.
\<close>

theorem subtitle_resolution:
  "(\<exists>r. animationLoop_subtitles render True (Some subs) t shown = Inr (r, shown \<noteq> r)
        \<and> ((\<exists>i < length subs. in_interval (subs ! i) t \<and> (\<forall>j < i. \<not> in_interval (subs ! j) t)
                \<and> r = render (sub_text (subs ! i)))
            \<or> ((\<forall>s \<in> set subs. \<not> in_interval s t) \<and> r = [])))
   \<and> animationLoop_subtitles render False so t shown = Inr ([], shown \<noteq> [])"
proof -
  have "animationLoop_subtitles render True (Some subs) t shown
          = Inr (subtitle_scan render t subs, shown \<noteq> subtitle_scan render t subs)"
    by (simp add: animationLoop_subtitles_def write_if_changed_def)
  moreover have "animationLoop_subtitles render False so t shown = Inr ([], shown \<noteq> [])"
    by (simp add: animationLoop_subtitles_def write_if_changed_def)
  ultimately show ?thesis using subtitle_scan_first[of subs t render] by blast
qed

theorem subtitle_resolution_witness:
  "animationLoop_subtitles (\<lambda>x. x) True
     (Some [\<lparr>sub_start = 0, sub_end = 2, sub_text = ''a''\<rparr>,
            \<lparr>sub_start = 2, sub_end = 4, sub_text = ''b''\<rparr>]) 2 ''a'' = Inr (''b'', True)
   \<and> animationLoop_subtitles (\<lambda>x. x) True
     (Some [\<lparr>sub_start = 0, sub_end = 2, sub_text = ''a''\<rparr>,
            \<lparr>sub_start = 2, sub_end = 4, sub_text = ''b''\<rparr>]) (1999 / 1000) ''a'' = Inr (''a'', False)
   \<and> in_interval \<lparr>sub_start = 2, sub_end = 4, sub_text = ''b''\<rparr> 2
   \<and> \<not> in_interval \<lparr>sub_start = 0, sub_end = 2, sub_text = ''a''\<rparr> 2"
  using subtitle_resolution[of "\<lambda>x. x"
      "[\<lparr>sub_start = 0, sub_end = 2, sub_text = ''a''\<rparr>, \<lparr>sub_start = 2, sub_end = 4, sub_text = ''b''\<rparr>]"
      2 "''a''" None]
  by (simp add: animationLoop_subtitles_def write_if_changed_def in_interval_def)

section \<open>The thumbnail sampler\<close>

text \<open>
  The comparator of the sampler never yields a negative number, and it is not a
  consistent comparator: it calls the frames at 20 and at 40 equal in one order and
  distinct in the other.
\<close>

lemma SortCompare_nonneg: "0 \<le> SortCompare preview_comparefn a b"
  by (simp add: SortCompare_def ToNumber_bool_def)

lemma comparefn_inconsistent:
  "SortCompare preview_comparefn \<lparr>timecode = 20, image = a\<rparr> \<lparr>timecode = 40, image = b\<rparr> = 0
   \<and> SortCompare preview_comparefn \<lparr>timecode = 40, image = b\<rparr> \<lparr>timecode = 20, image = a\<rparr> = 1"
  by (simp add: SortCompare_def preview_comparefn_def ToNumber_bool_def)

text \<open>With a comparator that is never negative, the sort of V8 moves nothing.\<close>

lemma count_run_nonneg:
  "(\<And>a b. 0 \<le> cmp a b) \<Longrightarrow> count_run cmp False previous xs = length xs"
  by (induction xs arbitrary: previous) (simp_all add: Let_def not_less)

lemma CountAndMakeRun_nonneg:
  assumes "\<And>a b. 0 \<le> cmp a b"
  shows "CountAndMakeRun cmp xs = (length xs, xs)"
proof (cases xs)
  case Nil
  then show ?thesis by (simp add: CountAndMakeRun_def)
next
  case (Cons low ys)
  show ?thesis
  proof (cases ys)
    case Nil
    with Cons show ?thesis by (simp add: CountAndMakeRun_def)
  next
    case (Cons high rest)
    have "\<not> cmp high low < 0" using assms[of high low] by simp
    then show ?thesis
      using \<open>xs = low # ys\<close> Cons count_run_nonneg[of cmp high rest, OF assms]
      by (simp add: CountAndMakeRun_def Let_def)
  qed
qed

lemma sort_v8_nonneg:
  assumes "\<And>a b. 0 \<le> cmp a b"
  shows "sort_v8 cmp xs = xs"
proof -
  have "BinaryInsertionSort cmp (length xs) xs = xs"
    by (subst BinaryInsertionSort.simps) simp
  then show ?thesis
    by (simp add: sort_v8_def CountAndMakeRun_nonneg[OF assms])
qed

lemma renderAndApply_v8:
  "renderAndApplyPreviewImage sort_v8 capture tc st =
     st\<lparr> seeks := seeks st @ [tc],
         seekbarPreviewImages := seekbarPreviewImages st @ [\<lparr> timecode = tc, image = capture tc \<rparr>] \<rparr>"
  by (simp add: renderAndApplyPreviewImage_def sort_v8_nonneg[OF SortCompare_nonneg])

lemma render_outer_step:
  "i \<le> k \<Longrightarrow> render_inner srt capture d (d / 2 ^ i) (d / 2 ^ i) st = Some st' \<Longrightarrow>
     render_outer srt capture d k i st = render_outer srt capture d k (Suc i) st'"
  by (subst render_outer.simps) (simp add: Let_def)

lemma render_outer_stop:
  "k < i \<Longrightarrow> render_outer srt capture d k i st = Some st"
  by (subst render_outer.simps) simp

text \<open>
  The two loops of the sampler, whatever the host's sort: for a positive duration they
  end, and they apply \<open>renderAndApplyPreviewImage\<close> along the schedule of the
  specification, one timecode after the other.
\<close>

lemma upt_shift_map: "map f [Suc 0 ..< Suc n] = map (\<lambda>j. f (Suc j)) [0 ..< n]"
  by (induction n) simp_all

lemma render_inner_fold:
  assumes f: "0 < f"
  shows "D \<le> t + 2 * f * real n \<Longrightarrow> (n = 0 \<or> t + 2 * f * (real n - 1) < D) \<Longrightarrow>
     render_inner srt capture D f t st
       = Some (foldl (\<lambda>s tc. renderAndApplyPreviewImage srt capture tc s) st
                 (map (\<lambda>j. t + 2 * f * real j) [0 ..< n]))"
proof (induction n arbitrary: t st)
  case 0
  then have "\<not> t < D" by simp
  then show ?case by (subst render_inner.simps) simp
next
  case (Suc n)
  from Suc.prems(2) have lt: "t + 2 * f * real n < D" by simp
  have "0 \<le> 2 * f * real n" using f by simp
  with lt have tD: "t < D" by linarith
  have a: "D \<le> (t + f * 2) + 2 * f * real n"
    using Suc.prems(1) by (simp add: algebra_simps)
  have b: "n = 0 \<or> (t + f * 2) + 2 * f * (real n - 1) < D"
    using lt by (simp add: algebra_simps)
  have m: "map (\<lambda>j. t + 2 * f * real j) [0 ..< Suc n]
      = t # map (\<lambda>j. (t + f * 2) + 2 * f * real j) [0 ..< n]"
  proof -
    have "[0 ..< Suc n] = 0 # [Suc 0 ..< Suc n]" by (simp add: upt_rec)
    then have "map (\<lambda>j. t + 2 * f * real j) [0 ..< Suc n]
        = t # map (\<lambda>j. t + 2 * f * real j) [Suc 0 ..< Suc n]" by simp
    also have "map (\<lambda>j. t + 2 * f * real j) [Suc 0 ..< Suc n]
        = map (\<lambda>j. t + 2 * f * real (Suc j)) [0 ..< n]" by (rule upt_shift_map)
    also have "\<dots> = map (\<lambda>j. (t + f * 2) + 2 * f * real j) [0 ..< n]"
      by (simp add: algebra_simps)
    finally show ?thesis .
  qed
  have "render_inner srt capture D f t st
      = render_inner srt capture D f (t + f * 2) (renderAndApplyPreviewImage srt capture t st)"
    using tD by (subst render_inner.simps) simp
  also have "\<dots> = Some (foldl (\<lambda>s tc. renderAndApplyPreviewImage srt capture tc s)
        (renderAndApplyPreviewImage srt capture t st)
        (map (\<lambda>j. (t + f * 2) + 2 * f * real j) [0 ..< n]))"
    by (rule Suc.IH[OF a b])
  finally show ?case by (simp only: m foldl_Cons)
qed

lemma render_inner_odd_multiples:
  assumes "0 < D" "1 \<le> i"
  shows "render_inner srt capture D (D / 2 ^ i) (D / 2 ^ i) st
       = Some (foldl (\<lambda>s tc. renderAndApplyPreviewImage srt capture tc s) st (odd_multiples D i))"
proof -
  define f where "f = D / 2 ^ i"
  define n where "n = (2::nat) ^ (i - 1)"
  have f: "0 < f" using assms(1) by (simp add: f_def)
  have pow: "2 * real n = 2 ^ i"
    using assms(2) by (cases i) (simp_all add: n_def)
  have D: "f * 2 ^ i = D" by (simp add: f_def)
  have "f + 2 * f * real n = f + f * (2 * real n)" by simp
  also have "\<dots> = f + D" using pow D by simp
  finally have a: "D \<le> f + 2 * f * real n" using f by simp
  have "f + 2 * f * (real n - 1) = f * (2 * real n) - f" by (simp add: algebra_simps)
  also have "\<dots> = D - f" using pow D by simp
  finally have b: "n = 0 \<or> f + 2 * f * (real n - 1) < D" using f by simp
  have m: "map (\<lambda>j. f + 2 * f * real j) [0 ..< n] = odd_multiples D i"
    by (simp add: odd_multiples_def f_def n_def algebra_simps)
  from render_inner_fold[OF f a b, of srt capture st] m show ?thesis
    by (simp add: f_def)
qed

lemma render_outer_fold:
  assumes D: "0 < D"
  shows "1 \<le> i \<Longrightarrow> i \<le> Suc K \<Longrightarrow>
     render_outer srt capture D K i st
       = Some (foldl (\<lambda>s tc. renderAndApplyPreviewImage srt capture tc s) st
                 (concat (map (odd_multiples D) [i ..< Suc K])))"
proof (induction "Suc K - i" arbitrary: i st)
  case 0
  then have "K < i" by simp
  then show ?case by (simp add: render_outer_stop)
next
  case (Suc m)
  then have iK: "i \<le> K" by simp
  have m: "m = Suc K - Suc i" using Suc.hyps(2) by simp
  have u: "[i ..< Suc K] = i # [Suc i ..< Suc K]" using iK by (simp add: upt_rec)
  have "render_outer srt capture D K i st = render_outer srt capture D K (Suc i)
      (foldl (\<lambda>s tc. renderAndApplyPreviewImage srt capture tc s) st (odd_multiples D i))"
    by (rule render_outer_step[OF iK render_inner_odd_multiples[OF D Suc.prems(1)]])
  also have "\<dots> = Some (foldl (\<lambda>s tc. renderAndApplyPreviewImage srt capture tc s)
      (foldl (\<lambda>s tc. renderAndApplyPreviewImage srt capture tc s) st (odd_multiples D i))
      (concat (map (odd_multiples D) [Suc i ..< Suc K])))"
    using Suc.hyps(1)[OF m] iK by simp
  finally show ?case by (simp only: u list.map concat.simps foldl_append)
qed

lemma render_schedule:
  assumes "0 < D"
  shows "renderSeekBarPreviewImages srt capture D K st
       = Some (foldl (\<lambda>s tc. renderAndApplyPreviewImage srt capture tc s)
                 (st\<lparr> seeks := [], seekbarPreviewImages := [] \<rparr>) (spec_schedule D K))"
  using render_outer_fold[OF assms, of 1 K srt capture]
  by (simp add: renderSeekBarPreviewImages_def spec_schedule_def)

lemma seeks_fold:
  "seeks (foldl (\<lambda>s tc. renderAndApplyPreviewImage srt capture tc s) st ts) = seeks st @ ts"
  by (induction ts arbitrary: st) (simp_all add: renderAndApplyPreviewImage_def)

lemma cache_fold_v8:
  "map timecode (seekbarPreviewImages
       (foldl (\<lambda>s tc. renderAndApplyPreviewImage sort_v8 capture tc s) st ts))
     = map timecode (seekbarPreviewImages st) @ ts"
  by (induction ts arbitrary: st) (simp_all add: renderAndApply_v8)

lemma spec_schedule_40_3: "spec_schedule 40 3 = [40, 20, 10, 30, 5, 15, 25, 35]"
  by (simp add: spec_schedule_def odd_multiples_def upt_rec)

lemma sampler_seeks_schedule:
  "0 < D \<Longrightarrow> \<exists>st'. renderSeekBarPreviewImages srt capture D K st = Some st'
      \<and> seeks st' = spec_schedule D K"
  by (simp add: render_schedule seeks_fold)

lemma sampler_cache_v8:
  "0 < D \<Longrightarrow> \<exists>st'. renderSeekBarPreviewImages sort_v8 capture D K st = Some st'
      \<and> map timecode (seekbarPreviewImages st') = spec_schedule D K"
  by (simp add: render_schedule cache_fold_v8)

text \<open>
  On a host that takes every non-positive result as "in order", the cache of the
  example does come out ascending.
\<close>

lemma sort_insertion_pair:
  "sort_insertion (SortCompare preview_comparefn)
     [\<lparr>timecode = 40, image = a\<rparr>, \<lparr>timecode = 20, image = b\<rparr>]
   = [\<lparr>timecode = 20, image = b\<rparr>, \<lparr>timecode = 40, image = a\<rparr>]"
  by (simp add: sort_insertion_def SortCompare_def preview_comparefn_def ToNumber_bool_def)

lemma sampler_cache_insertion_host:
  "\<exists>st'. renderSeekBarPreviewImages sort_insertion capture 40 3 st = Some st'
      \<and> map timecode (seekbarPreviewImages st') = [5, 10, 15, 20, 25, 30, 35, 40]"
proof -
  have "(0::real) < 40" by simp
  from render_schedule[OF this, of sort_insertion capture 3 st]
  show ?thesis
    by (simp add: spec_schedule_40_3 renderAndApplyPreviewImage_def
        sort_insertion_def SortCompare_def preview_comparefn_def ToNumber_bool_def)
qed

text \<open>
  C1. The sampling order is the one the claim states: for the duration 40 and 3
  iterations the off-screen video is sent to 40, 20, 10, 30, 5, 15, 25, 35, and 8
  frames are cached. The cache is not sorted: on the sort of V8 the boolean comparator
  moves nothing, so the frames stay in the order of their insertion,
  \<open>[40, 20, 10, 30, 5, 15, 25, 35]\<close>, where the claim has \<open>[5, 10, 15, 20, 25, 30, 35, 40]\<close>.
\<close>

theorem sampler_cache_unsorted_v8:
  "\<exists>st'. renderSeekBarPreviewImages sort_v8 capture 40 3 st = Some st'
      \<and> seeks st' = [40, 20, 10, 30, 5, 15, 25, 35]
      \<and> map timecode (seekbarPreviewImages st') = [40, 20, 10, 30, 5, 15, 25, 35]
      \<and> map timecode (seekbarPreviewImages st') \<noteq> [5, 10, 15, 20, 25, 30, 35, 40]
      \<and> \<not> sorted (map timecode (seekbarPreviewImages st'))"
proof -
  define st' where "st' = foldl (\<lambda>s tc. renderAndApplyPreviewImage sort_v8 capture tc s)
                 (st\<lparr> seeks := [], seekbarPreviewImages := [] \<rparr>) (spec_schedule 40 3)"
  have "(0::real) < 40" by simp
  then have r: "renderSeekBarPreviewImages sort_v8 capture 40 3 st = Some st'"
    unfolding st'_def by (rule render_schedule)
  have s: "seeks st' = [40, 20, 10, 30, 5, 15, 25, 35]"
    unfolding st'_def seeks_fold spec_schedule_40_3 by simp
  have c: "map timecode (seekbarPreviewImages st') = [40, 20, 10, 30, 5, 15, 25, 35]"
    unfolding st'_def cache_fold_v8 spec_schedule_40_3 by simp
  have "\<not> sorted [40, 20, 10, 30, 5, 15, 25, 35 :: real]" by simp
  with r s c show ?thesis by simp
qed

section \<open>The player: timers and gestures\<close>

text \<open>Every handler keeps the invariant of the timer table.\<close>

lemma timers_ok_clearTimeout: "timers_ok s \<Longrightarrow> timers_ok (clearTimeout h s)"
  by (cases h) (auto simp: timers_ok_def clearTimeout_def distinct_map_filter)

lemma timers_ok_updateHideControls: "timers_ok s \<Longrightarrow> timers_ok (updateHideControls now s)"
  by (cases "hideControlsTimeout_id s")
     (auto simp: timers_ok_def updateHideControls_def setTimeout_def clearTimeout_def Let_def
        distinct_map_filter less_Suc_eq)

text \<open>Updates of fields outside the timer table keep the invariant.\<close>

lemma timers_ok_cong:
  "timers s' = timers s \<Longrightarrow> next_timer s' = next_timer s \<Longrightarrow>
   hideControlsTimeout_id s' = hideControlsTimeout_id s \<Longrightarrow>
   playPauseTimeout_id s' = playPauseTimeout_id s \<Longrightarrow>
   tapJumpTimeout_id s' = tapJumpTimeout_id s \<Longrightarrow> timers_ok s' = timers_ok s"
  by (simp add: timers_ok_def)

lemma timers_ok_togglePaused: "timers_ok s \<Longrightarrow> timers_ok (togglePaused now s)"
  unfolding togglePaused_def set_paused_def updatePaused_def
  by (rule timers_ok_updateHideControls) (simp add: timers_ok_def)

lemma timers_ok_set_paused: "timers_ok s \<Longrightarrow> timers_ok (set_paused v now s)"
  unfolding set_paused_def updatePaused_def
  by (rule timers_ok_updateHideControls) (simp add: timers_ok_def)

lemma timers_ok_toggleFullscreen: "timers_ok s \<Longrightarrow> timers_ok (toggleFullscreen s)"
  by (simp add: timers_ok_def toggleFullscreen_def set_fullscreen_def)

lemma timers_ok_tapToggleOverlay: "timers_ok s \<Longrightarrow> timers_ok (tapToggleOverlay now s)"
  by (simp add: tapToggleOverlay_def timers_ok_updateHideControls) (simp add: timers_ok_def)

lemma timers_ok_arm_playPause:
  "timers_ok s \<Longrightarrow> \<forall>t \<in> set (timers s). callback t \<noteq> TogglePaused \<Longrightarrow>
   timers_ok (case setTimeout TogglePaused delay now (s\<lparr> lastClickTime := x \<rparr>) of (i, s') \<Rightarrow> s'\<lparr> playPauseTimeout_id := Some i \<rparr>)"
  by (auto simp: timers_ok_def setTimeout_def less_Suc_eq)

lemma no_pending_after_clear:
  "timers_ok s \<Longrightarrow> \<forall>t \<in> set (timers (clearTimeout (playPauseTimeout_id s) s)). callback t \<noteq> TogglePaused"
  by (cases "playPauseTimeout_id s") (auto simp: timers_ok_def clearTimeout_def)

lemma clearTimeout_fields [simp]:
  "playPauseTimeout_id (clearTimeout h s) = playPauseTimeout_id s"
  "hideControlsTimeout_id (clearTimeout h s) = hideControlsTimeout_id s"
  "tapJumpTimeout_id (clearTimeout h s) = tapJumpTimeout_id s"
  "next_timer (clearTimeout h s) = next_timer s"
  "lastClickTime (clearTimeout h s) = lastClickTime s"
  "lastTapTime (clearTimeout h s) = lastTapTime s"
  "options (clearTimeout h s) = options s"
  "videoElement (clearTimeout h s) = videoElement s"
  "calls (clearTimeout h s) = calls s"
  "paused (clearTimeout h s) = paused s"
  "ended (clearTimeout h s) = ended s"
  "fullscreen (clearTimeout h s) = fullscreen s"
  "controls_hidden (clearTimeout h s) = controls_hidden s"
  "mobile (clearTimeout h s) = mobile s"
  by (cases h; simp add: clearTimeout_def)+

lemma timers_ok_pointerdown_mouse: "timers_ok s \<Longrightarrow> timers_ok (pointerdown_mouse now b s)"
proof -
  assume ok: "timers_ok s"
  define s1 where "s1 = updateHideControls now s"
  define s2 where "s2 = clearTimeout (playPauseTimeout_id s1) s1"
  have ok1: "timers_ok s1" unfolding s1_def using ok by (rule timers_ok_updateHideControls)
  have ok2: "timers_ok s2" unfolding s2_def using ok1 by (rule timers_ok_clearTimeout)
  have none: "\<forall>t \<in> set (timers s2). callback t \<noteq> TogglePaused"
    unfolding s2_def using ok1 by (rule no_pending_after_clear)
  have "pointerdown_mouse now b s =
      (if b \<noteq> 1 then s
       else if now - lastClickTime s2 \<le> doubleClickDuration (options s2) then toggleFullscreen s2
       else (case setTimeout TogglePaused (doubleClickDuration (options s2)) now (s2\<lparr> lastClickTime := now \<rparr>)
             of (i, s') \<Rightarrow> s'\<lparr> playPauseTimeout_id := Some i \<rparr>))"
    by (simp add: pointerdown_mouse_def Let_def s1_def s2_def)
  then show ?thesis
    using ok ok2 timers_ok_toggleFullscreen[OF ok2] timers_ok_arm_playPause[OF ok2 none]
    by simp
qed

lemma pointerdown_touch_cases:
  "pointerdown_touch now cx s =
     (let direction = tap_direction cx s;
          s1 = clearTimeout (tapJumpTimeout_id s) s
      in if direction = [] then tapToggleOverlay now s1
         else if now - lastTapTime s \<le> doubleTapJumpDuration (options s)
         then s1\<lparr> videoElement :=
                    seek (currentTime (videoElement s)
                            + (if direction = ''r'' then doubleTapJumpDistance (options s)
                               else - doubleTapJumpDistance (options s)))
                         (videoElement s),
                  lastTapTime := now \<rparr>
         else (case setTimeout TapToggleOverlay (doubleTapJumpDuration (options s)) now
                      (s1\<lparr> lastTapTime := now \<rparr>)
               of (i, s') \<Rightarrow> s'\<lparr> tapJumpTimeout_id := Some i \<rparr>))"
  by (simp add: pointerdown_touch_def Let_def)

lemma no_tap_pending_after_clear:
  "timers_ok s \<Longrightarrow> \<forall>t \<in> set (timers (clearTimeout (tapJumpTimeout_id s) s)). callback t \<noteq> TapToggleOverlay"
  by (cases "tapJumpTimeout_id s") (auto simp: timers_ok_def clearTimeout_def)

lemma timers_ok_arm_tapJump:
  "timers_ok s \<Longrightarrow> \<forall>t \<in> set (timers s). callback t \<noteq> TapToggleOverlay \<Longrightarrow>
   timers_ok (case setTimeout TapToggleOverlay delay now (s\<lparr> lastTapTime := x \<rparr>) of (i, s') \<Rightarrow> s'\<lparr> tapJumpTimeout_id := Some i \<rparr>)"
  by (auto simp: timers_ok_def setTimeout_def less_Suc_eq)

lemma timers_ok_pointerdown_touch: "timers_ok s \<Longrightarrow> timers_ok (pointerdown_touch now cx s)"
proof -
  assume ok: "timers_ok s"
  define s1 where "s1 = clearTimeout (tapJumpTimeout_id s) s"
  have ok1: "timers_ok s1" unfolding s1_def using ok by (rule timers_ok_clearTimeout)
  have none: "\<forall>t \<in> set (timers s1). callback t \<noteq> TapToggleOverlay"
    unfolding s1_def using ok by (rule no_tap_pending_after_clear)
  have jump: "timers_ok (s1\<lparr> videoElement := v, lastTapTime := now \<rparr>)" for v
    using ok1 by (simp add: timers_ok_def)
  show ?thesis
    unfolding pointerdown_touch_cases Let_def s1_def[symmetric]
    using timers_ok_tapToggleOverlay[OF ok1] jump timers_ok_arm_tapJump[OF ok1 none]
    by simp
qed

lemma timers_ok_pointerdown: "timers_ok s \<Longrightarrow> timers_ok (pointerdown now p b cx s)"
  by (simp add: pointerdown_def timers_ok_pointerdown_mouse timers_ok_pointerdown_touch)

lemma timers_ok_pointerup: "timers_ok s \<Longrightarrow> timers_ok (pointerup now p s)"
  by (auto simp: pointerup_def timers_ok_def setTimeout_def less_Suc_eq)

lemma timers_ok_pointermove: "timers_ok s \<Longrightarrow> timers_ok (pointermove now p s)"
  by (simp add: pointermove_def timers_ok_updateHideControls)

lemma timers_ok_toggleMute: "timers_ok s \<Longrightarrow> timers_ok (toggleMute s)"
  by (simp add: timers_ok_def toggleMute_def)

lemma timers_ok_toggleSubtitles: "timers_ok s \<Longrightarrow> timers_ok (toggleSubtitles s)"
  by (simp add: timers_ok_def toggleSubtitles_def)

lemma timers_ok_set_fullscreen: "timers_ok s \<Longrightarrow> timers_ok (set_fullscreen v s)"
  by (simp add: timers_ok_def set_fullscreen_def)

lemma timers_ok_video: "timers_ok s \<Longrightarrow> timers_ok (s\<lparr> videoElement := v \<rparr>)"
  by (simp add: timers_ok_def)

lemma timers_ok_keydown: "timers_ok s \<Longrightarrow> timers_ok (keydown now k bf s)"
proof -
  assume "timers_ok s"
  then have ok1: "timers_ok (updateHideControls now s)" by (rule timers_ok_updateHideControls)
  show ?thesis
    unfolding keydown_def Let_def
    using ok1 timers_ok_togglePaused[OF ok1] timers_ok_toggleMute[OF ok1]
      timers_ok_toggleFullscreen[OF ok1] timers_ok_toggleSubtitles[OF ok1]
      timers_ok_set_fullscreen[OF ok1] timers_ok_video[OF ok1]
    by simp
qed

lemma timers_ok_on_seekingchange: "timers_ok s \<Longrightarrow> timers_ok (on_seekingchange now b s)"
  unfolding on_seekingchange_def
  by (rule timers_ok_updateHideControls) (simp add: timers_ok_def)

lemma timers_ok_on_ended: "timers_ok s \<Longrightarrow> timers_ok (on_ended now s)"
  unfolding on_ended_def
  by (intro timers_ok_updateHideControls timers_ok_set_paused) (simp add: timers_ok_def)

lemma timers_ok_remove: "timers_ok s \<Longrightarrow> timers_ok (s\<lparr> timers := filter (\<lambda>t. tid t \<noteq> i) (timers s) \<rparr>)"
  by (auto simp: timers_ok_def distinct_map_filter)

lemma timers_ok_hideControls_fires: "timers_ok s \<Longrightarrow> timers_ok (hideControls_fires s)"
  by (simp add: hideControls_fires_def timers_ok_def)

lemma timers_ok_run_callback: "timers_ok s \<Longrightarrow> timers_ok (run_callback cb now s)"
  by (cases cb)
     (simp_all add: run_callback_def timers_ok_hideControls_fires timers_ok_togglePaused
        timers_ok_tapToggleOverlay, simp add: timers_ok_def)

lemma timers_ok_timer_fires: "timers_ok s \<Longrightarrow> timers_ok (timer_fires now i s)"
  by (simp add: timer_fires_def timers_ok_run_callback timers_ok_remove split: option.splits)

lemma handle_TimeChange:
  "handle now (TimeChange (Num t)) s = s\<lparr> videoElement := seek t (videoElement s) \<rparr>"
  "handle now (TimeChange NaN) s = s"
  "handle now (TimeChange PosInf) s = s"
  "handle now (TimeChange NegInf) s = s"
  by (simp_all add: on_timechange_def set_currentTime_def)

lemma timers_ok_timechange: "timers_ok s \<Longrightarrow> timers_ok (handle now (TimeChange t) s)"
  by (cases t) (simp_all only: handle_TimeChange timers_ok_video)

lemma timers_ok_handle: "timers_ok s \<Longrightarrow> timers_ok (handle now e s)"
proof (cases e)
  case (TimeChange t)
  assume "timers_ok s"
  then show ?thesis unfolding TimeChange by (rule timers_ok_timechange)
qed (simp_all add: timers_ok_pointermove timers_ok_pointerdown timers_ok_pointerup
        timers_ok_keydown timers_ok_on_seekingchange timers_ok_on_ended timers_ok_togglePaused
        timers_ok_toggleMute timers_ok_toggleFullscreen timers_ok_toggleSubtitles
        timers_ok_timer_fires,
      simp_all add: timers_ok_def on_previewtimechange_def on_timeupdate_def)

lemma timers_ok_run: "timers_ok s \<Longrightarrow> timers_ok (run es s)"
  by (induction es arbitrary: s) (auto simp: timers_ok_handle)

lemma timers_ok_constructed: "timers_ok (constructed d l w)"
  by (simp add: timers_ok_def constructed_def)

lemma timers_ok_connected: "timers_ok (connectedCallback now (constructed d l w))"
  unfolding connectedCallback_def updatePaused_def
  by (intro timers_ok_updateHideControls timers_ok_video timers_ok_constructed)

lemma reachable_timers_ok: "timers_ok (run es (connectedCallback now (constructed d l w)))"
  by (intro timers_ok_run timers_ok_connected)

lemma pending_at_most_one:
  assumes "timers_ok s" "cb \<noteq> RemoveNoClick"
  shows "length (pending cb s) \<le> 1"
proof -
  have d: "distinct (map tid (pending cb s))"
    using assms(1) by (simp add: timers_ok_def pending_def distinct_map_filter)
  define h where "h = (case cb of HideControls \<Rightarrow> hideControlsTimeout_id s
      | TogglePaused \<Rightarrow> playPauseTimeout_id s | TapToggleOverlay \<Rightarrow> tapJumpTimeout_id s
      | RemoveNoClick \<Rightarrow> None)"
  have h: "\<forall>t \<in> set (pending cb s). Some (tid t) = h"
    using assms by (cases cb) (auto simp: timers_ok_def pending_def h_def)
  then have "set (map tid (pending cb s)) \<subseteq> set_option h" by auto
  then have "card (set (map tid (pending cb s))) \<le> card (set_option h)"
    by (intro card_mono) simp_all
  also have "\<dots> \<le> 1" by (cases h) simp_all
  finally show ?thesis using distinct_card[OF d] by simp
qed

subsection \<open>The auto-hide state machine\<close>

lemma updateHideControls_visible: "\<not> controls_hidden (updateHideControls now s)"
  by (cases "hideControlsTimeout_id s")
     (simp_all add: updateHideControls_def setTimeout_def clearTimeout_def Let_def)

lemma connected_visible: "\<not> controls_hidden (connectedCallback now (constructed d l w))"
  by (simp add: connectedCallback_def updatePaused_def updateHideControls_visible)

lemma updateHideControls_timers:
  "timers (updateHideControls now s)
     = timers (clearTimeout (hideControlsTimeout_id s) s)
         @ [\<lparr> tid = next_timer s, due = now + hide_delay s, callback = HideControls \<rparr>]"
  "hideControlsTimeout_id (updateHideControls now s) = Some (next_timer s)"
  "paused (updateHideControls now s) = paused s"
  "ended (updateHideControls now s) = ended s"
  by (cases "hideControlsTimeout_id s";
      simp add: updateHideControls_def setTimeout_def clearTimeout_def Let_def hide_delay_def)+

lemma updateHideControls_pending:
  assumes "timers_ok s"
  shows "pending HideControls (updateHideControls now s)
           = [\<lparr> tid = next_timer s, due = now + hide_delay s, callback = HideControls \<rparr>]"
proof -
  have "filter (\<lambda>t. callback t = HideControls) (timers (clearTimeout (hideControlsTimeout_id s) s)) = []"
    using assms by (cases "hideControlsTimeout_id s") (auto simp: timers_ok_def clearTimeout_def filter_empty_conv)
  then show ?thesis by (simp add: pending_def updateHideControls_timers)
qed

lemma hide_timer_fires:
  assumes "find (\<lambda>t. tid t = i) (timers s) = Some tm" "callback tm = HideControls" "due tm \<le> t"
  shows "controls_hidden (timer_fires t i s) = (if paused s \<or> ended s then controls_hidden s else True)"
  using assms by (simp add: timer_fires_def run_callback_def hideControls_fires_def)

lemma find_append_None: "find P xs = None \<Longrightarrow> find P (xs @ ys) = find P ys"
  by (induction xs) (auto split: if_splits)

lemma find_fresh:
  assumes "timers_ok s"
  shows "find (\<lambda>t. tid t = next_timer s) (timers (updateHideControls now s))
           = Some \<lparr> tid = next_timer s, due = now + hide_delay s, callback = HideControls \<rparr>"
proof -
  have "\<forall>t \<in> set (timers (clearTimeout (hideControlsTimeout_id s) s)). tid t \<noteq> next_timer s"
    using assms by (cases "hideControlsTimeout_id s") (auto simp: timers_ok_def clearTimeout_def)
  then have "find (\<lambda>t. tid t = next_timer s) (timers (clearTimeout (hideControlsTimeout_id s) s)) = None"
    by (simp add: find_None_iff)
  then show ?thesis by (simp add: updateHideControls_timers find_append_None)
qed

lemma activity_then_fire:
  assumes "timers_ok s" "now + hide_delay s \<le> t"
  shows "controls_hidden (timer_fires t (next_timer s) (updateHideControls now s)) = (\<not> paused s \<and> \<not> ended s)"
  using hide_timer_fires[OF find_fresh[OF assms(1), of now], of t] assms(2)
  by (simp add: updateHideControls_timers updateHideControls_visible)

lemmas player_eval = connectedCallback_def constructed_def updatePaused_def updateHideControls_def
  setTimeout_def clearTimeout_def default_options_def togglePaused_def set_paused_def
  pointermove_def timer_fires_def run_callback_def hideControls_fires_def Let_def hide_delay_def
  pointerdown_def pointerdown_mouse_def pointerdown_touch_def toggleFullscreen_def set_fullscreen_def
  tapToggleOverlay_def tap_direction_def seek_def clamp_def js_le_def on_timechange_def
  set_currentTime_def

text \<open>
  C5. The controls start visible. An activity signal (\<open>#updateHideControls\<close>) makes them
  visible and arms the debounce timer; when that timer fires, once it is due, the
  controls become hidden if the player is neither paused nor ended, and nothing changes
  if it is paused or ended (after an activity signal they stay visible). This holds for
  the timer of the signal in any reachable state, and for any pending debounce timer in
  any state. Arming the debounce cancels the pending one: after a signal in a reachable
  state exactly the new debounce timer is pending, and in every reachable state at most
  one is.
\<close>

theorem auto_hide_state_machine:
  "\<not> controls_hidden (connectedCallback now0 (constructed d l w))
   \<and> \<not> controls_hidden (updateHideControls now (run es (connectedCallback now0 (constructed d l w))))
   \<and> (now + hide_delay (run es (connectedCallback now0 (constructed d l w))) \<le> t \<longrightarrow>
        controls_hidden (timer_fires t (next_timer (run es (connectedCallback now0 (constructed d l w))))
                           (updateHideControls now (run es (connectedCallback now0 (constructed d l w)))))
          = (\<not> paused (run es (connectedCallback now0 (constructed d l w)))
             \<and> \<not> ended (run es (connectedCallback now0 (constructed d l w)))))
   \<and> (find (\<lambda>x. tid x = i) (timers s) = Some tm \<and> callback tm = HideControls \<and> due tm \<le> t \<longrightarrow>
        controls_hidden (timer_fires t i s) = (if paused s \<or> ended s then controls_hidden s else True))
   \<and> pending HideControls (updateHideControls now (run es (connectedCallback now0 (constructed d l w))))
        = [\<lparr> tid = next_timer (run es (connectedCallback now0 (constructed d l w))),
             due = now + hide_delay (run es (connectedCallback now0 (constructed d l w))),
             callback = HideControls \<rparr>]
   \<and> length (pending HideControls (run es (connectedCallback now0 (constructed d l w)))) \<le> 1"
proof -
  define s1 where "s1 = run es (connectedCallback now0 (constructed d l w))"
  have ok: "timers_ok s1"
    unfolding s1_def by (intro timers_ok_run timers_ok_connected)
  have "length (pending HideControls s1) \<le> 1"
    using ok by (rule pending_at_most_one) simp
  moreover have "now + hide_delay s1 \<le> t \<longrightarrow>
      controls_hidden (timer_fires t (next_timer s1) (updateHideControls now s1))
        = (\<not> paused s1 \<and> \<not> ended s1)"
    using activity_then_fire[OF ok] by blast
  moreover have "find (\<lambda>x. tid x = i) (timers s) = Some tm \<and> callback tm = HideControls \<and> due tm \<le> t \<longrightarrow>
        controls_hidden (timer_fires t i s) = (if paused s \<or> ended s then controls_hidden s else True)"
    using hide_timer_fires[of i s tm t] by blast
  ultimately show ?thesis
    unfolding s1_def[symmetric]
    using connected_visible[of now0 d l w] updateHideControls_visible[of now s1]
      updateHideControls_pending[OF ok, of now]
    by blast
qed

theorem auto_hide_state_machine_witness:
  "(1000::int) + hide_delay (run [(10, ClickPlayPause)] (connectedCallback 0 (constructed 100 0 1000))) \<le> 2500
   \<and> \<not> paused (run [(10, ClickPlayPause)] (connectedCallback 0 (constructed 100 0 1000)))
   \<and> controls_hidden
        (timer_fires 2500 (next_timer (run [(10, ClickPlayPause)] (connectedCallback 0 (constructed 100 0 1000))))
           (updateHideControls 1000 (run [(10, ClickPlayPause)] (connectedCallback 0 (constructed 100 0 1000)))))
   \<and> paused (run [] (connectedCallback 0 (constructed 100 0 1000)))
   \<and> \<not> controls_hidden
        (timer_fires 2500 (next_timer (run [] (connectedCallback 0 (constructed 100 0 1000))))
           (updateHideControls 1000 (run [] (connectedCallback 0 (constructed 100 0 1000)))))
   \<and> find (\<lambda>x. tid x = 1) (timers (connectedCallback 0 (constructed 100 0 1000)))
        = Some \<lparr> tid = 1, due = 1500, callback = HideControls \<rparr>
   \<and> \<not> controls_hidden (timer_fires 2500 1 (connectedCallback 0 (constructed 100 0 1000)))"
proof -
  have a: "hide_delay (run [(10, ClickPlayPause)] (connectedCallback 0 (constructed 100 0 1000))) = 1500"
    by (simp add: player_eval)
  have b: "hide_delay (run [] (connectedCallback 0 (constructed 100 0 1000))) = 1500"
    by (simp add: player_eval)
  have c: "\<not> paused (run [(10, ClickPlayPause)] (connectedCallback 0 (constructed 100 0 1000)))"
    "\<not> ended (run [(10, ClickPlayPause)] (connectedCallback 0 (constructed 100 0 1000)))"
    "paused (run [] (connectedCallback 0 (constructed 100 0 1000)))"
    by (simp_all add: player_eval)
  have f: "find (\<lambda>x. tid x = 1) (timers (connectedCallback 0 (constructed 100 0 1000)))
        = Some \<lparr> tid = 1, due = 1500, callback = HideControls \<rparr>"
    "paused (connectedCallback 0 (constructed 100 0 1000))"
    "\<not> controls_hidden (connectedCallback 0 (constructed 100 0 1000))"
    by (simp_all add: player_eval)
  show ?thesis
    using auto_hide_state_machine[where ?now0.0 = 0 and d = 100 and l = 0 and w = 1000 and now = 1000
        and es = "[(10, ClickPlayPause)]" and t = 2500 and i = 1
        and s = "connectedCallback 0 (constructed 100 0 1000)"
        and tm = "\<lparr> tid = 1, due = 1500, callback = HideControls \<rparr>"]
      auto_hide_state_machine[where ?now0.0 = 0 and d = 100 and l = 0 and w = 1000 and now = 1000
        and es = "[]" and t = 2500 and i = 1
        and s = "connectedCallback 0 (constructed 100 0 1000)"
        and tm = "\<lparr> tid = 1, due = 1500, callback = HideControls \<rparr>"]
    unfolding a b using c f by simp
qed

subsection \<open>Mouse contacts\<close>

lemma updateHideControls_fields:
  "calls (updateHideControls now s) = calls s"
  "fullscreen (updateHideControls now s) = fullscreen s"
  "lastClickTime (updateHideControls now s) = lastClickTime s"
  "lastTapTime (updateHideControls now s) = lastTapTime s"
  "options (updateHideControls now s) = options s"
  "videoElement (updateHideControls now s) = videoElement s"
  "playPauseTimeout_id (updateHideControls now s) = playPauseTimeout_id s"
  "tapJumpTimeout_id (updateHideControls now s) = tapJumpTimeout_id s"
  "next_timer (updateHideControls now s) = Suc (next_timer s)"
  "offsetLeft (updateHideControls now s) = offsetLeft s"
  "offsetWidth (updateHideControls now s) = offsetWidth s"
  by (cases "hideControlsTimeout_id s";
      simp add: updateHideControls_def setTimeout_def clearTimeout_def Let_def)+

lemma pointerdown_mouse_cases:
  "pointerdown_mouse now (Suc 0) s =
     (let s2 = clearTimeout (playPauseTimeout_id s) (updateHideControls now s)
      in if now - lastClickTime s \<le> doubleClickDuration (options s) then toggleFullscreen s2
         else (s2\<lparr> lastClickTime := now,
                   timers := timers s2 @ [\<lparr> tid = Suc (next_timer s),
                                due = now + doubleClickDuration (options s), callback = TogglePaused \<rparr>],
                   next_timer := Suc (Suc (next_timer s)),
                   playPauseTimeout_id := Some (Suc (next_timer s)) \<rparr>))"
  by (simp add: pointerdown_mouse_def Let_def setTimeout_def updateHideControls_fields)

lemma pending_after_clear_pp:
  "timers_ok s \<Longrightarrow> pending TogglePaused (clearTimeout (playPauseTimeout_id s) s) = []"
  by (cases "playPauseTimeout_id s") (auto simp: timers_ok_def clearTimeout_def pending_def filter_empty_conv)

lemma pending_after_clear_tap:
  "timers_ok s \<Longrightarrow> pending TapToggleOverlay (clearTimeout (tapJumpTimeout_id s) s) = []"
  by (cases "tapJumpTimeout_id s") (auto simp: timers_ok_def clearTimeout_def pending_def filter_empty_conv)

lemma double_click:
  assumes ok: "timers_ok s" and near: "now - lastClickTime s \<le> doubleClickDuration (options s)"
  shows "calls (pointerdown_mouse now (Suc 0) s) = calls s @ [ToggleFullscreen]"
    "fullscreen (pointerdown_mouse now (Suc 0) s) = (\<not> fullscreen s)"
    "paused (pointerdown_mouse now (Suc 0) s) = paused s"
    "pending TogglePaused (pointerdown_mouse now (Suc 0) s) = []"
    "lastClickTime (pointerdown_mouse now (Suc 0) s) = lastClickTime s"
proof -
  define s1 where "s1 = updateHideControls now s"
  have ok1: "timers_ok s1" unfolding s1_def using ok by (rule timers_ok_updateHideControls)
  have pp: "playPauseTimeout_id s1 = playPauseTimeout_id s"
    by (simp add: s1_def updateHideControls_fields)
  have eq: "pointerdown_mouse now (Suc 0) s = toggleFullscreen (clearTimeout (playPauseTimeout_id s1) s1)"
    using near by (subst pointerdown_mouse_cases) (simp add: Let_def s1_def pp[unfolded s1_def])
  have p: "pending TogglePaused (clearTimeout (playPauseTimeout_id s1) s1) = []"
    using ok1 by (rule pending_after_clear_pp)
  show "calls (pointerdown_mouse now (Suc 0) s) = calls s @ [ToggleFullscreen]"
    by (simp add: eq toggleFullscreen_def set_fullscreen_def s1_def updateHideControls_fields)
  show "fullscreen (pointerdown_mouse now (Suc 0) s) = (\<not> fullscreen s)"
    by (simp add: eq toggleFullscreen_def set_fullscreen_def s1_def updateHideControls_fields)
  show "paused (pointerdown_mouse now (Suc 0) s) = paused s"
    by (simp add: eq toggleFullscreen_def set_fullscreen_def s1_def updateHideControls_timers)
  show "pending TogglePaused (pointerdown_mouse now (Suc 0) s) = []"
    using p by (simp add: eq toggleFullscreen_def set_fullscreen_def pending_def)
  show "lastClickTime (pointerdown_mouse now (Suc 0) s) = lastClickTime s"
    by (simp add: eq toggleFullscreen_def set_fullscreen_def s1_def updateHideControls_fields)
qed

lemma single_click:
  assumes ok: "timers_ok s" and far: "doubleClickDuration (options s) < now - lastClickTime s"
  shows "calls (pointerdown_mouse now (Suc 0) s) = calls s"
    "fullscreen (pointerdown_mouse now (Suc 0) s) = fullscreen s"
    "paused (pointerdown_mouse now (Suc 0) s) = paused s"
    "pending TogglePaused (pointerdown_mouse now (Suc 0) s)
       = [\<lparr> tid = Suc (next_timer s), due = now + doubleClickDuration (options s), callback = TogglePaused \<rparr>]"
    "lastClickTime (pointerdown_mouse now (Suc 0) s) = now"
    "options (pointerdown_mouse now (Suc 0) s) = options s"
    "find (\<lambda>x. tid x = Suc (next_timer s)) (timers (pointerdown_mouse now (Suc 0) s))
       = Some \<lparr> tid = Suc (next_timer s), due = now + doubleClickDuration (options s), callback = TogglePaused \<rparr>"
proof -
  define s1 where "s1 = updateHideControls now s"
  define s2 where "s2 = clearTimeout (playPauseTimeout_id s1) s1"
  have ok1: "timers_ok s1" unfolding s1_def using ok by (rule timers_ok_updateHideControls)
  have ok2: "timers_ok s2" unfolding s2_def using ok1 by (rule timers_ok_clearTimeout)
  have pp: "playPauseTimeout_id s1 = playPauseTimeout_id s"
    by (simp add: s1_def updateHideControls_fields)
  have p: "pending TogglePaused s2 = []"
    unfolding s2_def using ok1 by (rule pending_after_clear_pp)
  have nt: "next_timer s2 = Suc (next_timer s)"
    by (simp add: s2_def s1_def updateHideControls_fields)
  have eq: "pointerdown_mouse now (Suc 0) s =
      s2\<lparr> lastClickTime := now,
           timers := timers s2 @ [\<lparr> tid = Suc (next_timer s),
                        due = now + doubleClickDuration (options s), callback = TogglePaused \<rparr>],
           next_timer := Suc (Suc (next_timer s)),
           playPauseTimeout_id := Some (Suc (next_timer s)) \<rparr>"
    using far by (subst pointerdown_mouse_cases) (simp add: Let_def s2_def s1_def pp[unfolded s1_def])
  show "calls (pointerdown_mouse now (Suc 0) s) = calls s"
    by (simp add: eq s2_def s1_def updateHideControls_fields)
  show "fullscreen (pointerdown_mouse now (Suc 0) s) = fullscreen s"
    by (simp add: eq s2_def s1_def updateHideControls_fields)
  show "paused (pointerdown_mouse now (Suc 0) s) = paused s"
    by (simp add: eq s2_def s1_def updateHideControls_timers)
  show "pending TogglePaused (pointerdown_mouse now (Suc 0) s)
       = [\<lparr> tid = Suc (next_timer s), due = now + doubleClickDuration (options s), callback = TogglePaused \<rparr>]"
    using p by (simp add: eq pending_def)
  show "lastClickTime (pointerdown_mouse now (Suc 0) s) = now" by (simp add: eq)
  show "options (pointerdown_mouse now (Suc 0) s) = options s"
    by (simp add: eq s2_def s1_def updateHideControls_fields)
  have "\<forall>x \<in> set (timers s2). tid x \<noteq> Suc (next_timer s)"
    using ok2 nt by (auto simp: timers_ok_def)
  then have "find (\<lambda>x. tid x = Suc (next_timer s)) (timers s2) = None"
    by (simp add: find_None_iff)
  then show "find (\<lambda>x. tid x = Suc (next_timer s)) (timers (pointerdown_mouse now (Suc 0) s))
       = Some \<lparr> tid = Suc (next_timer s), due = now + doubleClickDuration (options s), callback = TogglePaused \<rparr>"
    by (simp add: eq find_append_None)
qed

lemma togglePaused_fields:
  "calls (togglePaused now s) = calls s @ [TogglePausedCall]"
  "paused (togglePaused now s) = (\<not> paused s)"
  "fullscreen (togglePaused now s) = fullscreen s"
  by (simp_all add: togglePaused_def set_paused_def updatePaused_def updateHideControls_fields
      updateHideControls_timers)

lemma pending_updateHideControls_other:
  "cb \<noteq> HideControls \<Longrightarrow> pending cb s = [] \<Longrightarrow> pending cb (updateHideControls now s) = []"
  by (cases "hideControlsTimeout_id s")
     (auto simp: pending_def updateHideControls_def setTimeout_def clearTimeout_def Let_def
        filter_empty_conv)

lemma deferred_toggle_fires:
  assumes "find (\<lambda>x. tid x = i) (timers s) = Some tm" "callback tm = TogglePaused" "due tm \<le> t"
    and "pending TogglePaused s = [tm]"
  shows "calls (timer_fires t i s) = calls s @ [TogglePausedCall]"
    "paused (timer_fires t i s) = (\<not> paused s)"
    "fullscreen (timer_fires t i s) = fullscreen s"
    "pending TogglePaused (timer_fires t i s) = []"
proof -
  define s' where "s' = s\<lparr> timers := filter (\<lambda>x. tid x \<noteq> i) (timers s) \<rparr>"
  have eq: "timer_fires t i s = togglePaused t s'"
    using assms(1-3) by (simp add: timer_fires_def run_callback_def s'_def)
  have "tid tm = i" using assms(1) by (auto simp: find_Some_iff)
  then have "filter (\<lambda>x. tid x \<noteq> i) [tm] = []" by simp
  then have "filter (\<lambda>x. tid x \<noteq> i) (pending TogglePaused s) = []" using assms(4) by simp
  then have p: "pending TogglePaused s' = []"
    by (simp add: pending_def s'_def conj_commute)
  show "calls (timer_fires t i s) = calls s @ [TogglePausedCall]"
    by (simp add: eq togglePaused_fields s'_def)
  show "paused (timer_fires t i s) = (\<not> paused s)"
    by (simp add: eq togglePaused_fields s'_def)
  show "fullscreen (timer_fires t i s) = fullscreen s"
    by (simp add: eq togglePaused_fields s'_def)
  have "pending TogglePaused (s'\<lparr> calls := calls s' @ [TogglePausedCall], paused := \<not> paused s',
      videoElement := (videoElement s')\<lparr> video_paused := \<not> paused s' \<rparr> \<rparr>) = []"
    using p by (simp add: pending_def)
  then show "pending TogglePaused (timer_fires t i s) = []"
    unfolding eq togglePaused_def set_paused_def updatePaused_def
    by (intro pending_updateHideControls_other) simp_all
qed

text \<open>
  C6, amended. In every state that satisfies the timer invariant (every reachable state
  does): a mouse contact-down of the primary button within the double-click threshold
  of the last contact-down that armed the deferred action toggles fullscreen exactly
  once, leaves paused alone and leaves no deferred toggle pending; so do two successive
  contact-downs separated by at most the threshold when the first comes more than the
  threshold after the last arming one. A contact-down more than the threshold after the
  last arming one toggles nothing by itself and arms the deferred action, which does
  nothing before the threshold has elapsed and then toggles paused exactly once.
\<close>

theorem mouse_click_classifier:
  assumes ok: "timers_ok s"
  shows
   "(now - lastClickTime s \<le> doubleClickDuration (options s) \<longrightarrow>
        calls (pointerdown_mouse now 1 s) = calls s @ [ToggleFullscreen]
      \<and> fullscreen (pointerdown_mouse now 1 s) = (\<not> fullscreen s)
      \<and> paused (pointerdown_mouse now 1 s) = paused s
      \<and> pending TogglePaused (pointerdown_mouse now 1 s) = [])
    \<and> (doubleClickDuration (options s) < now1 - lastClickTime s
        \<and> now2 - now1 \<le> doubleClickDuration (options s) \<longrightarrow>
        calls (pointerdown_mouse now2 1 (pointerdown_mouse now1 1 s)) = calls s @ [ToggleFullscreen]
      \<and> fullscreen (pointerdown_mouse now2 1 (pointerdown_mouse now1 1 s)) = (\<not> fullscreen s)
      \<and> paused (pointerdown_mouse now2 1 (pointerdown_mouse now1 1 s)) = paused s
      \<and> pending TogglePaused (pointerdown_mouse now2 1 (pointerdown_mouse now1 1 s)) = [])
    \<and> (doubleClickDuration (options s) < now1 - lastClickTime s \<longrightarrow>
        calls (pointerdown_mouse now1 1 s) = calls s
      \<and> pending TogglePaused (pointerdown_mouse now1 1 s)
          = [\<lparr> tid = Suc (next_timer s), due = now1 + doubleClickDuration (options s),
               callback = TogglePaused \<rparr>])
    \<and> (doubleClickDuration (options s) < now1 - lastClickTime s
        \<and> t < now1 + doubleClickDuration (options s) \<longrightarrow>
        timer_fires t (Suc (next_timer s)) (pointerdown_mouse now1 1 s) = pointerdown_mouse now1 1 s)
    \<and> (doubleClickDuration (options s) < now1 - lastClickTime s
        \<and> now1 + doubleClickDuration (options s) \<le> t \<longrightarrow>
        calls (timer_fires t (Suc (next_timer s)) (pointerdown_mouse now1 1 s))
          = calls s @ [TogglePausedCall]
      \<and> paused (timer_fires t (Suc (next_timer s)) (pointerdown_mouse now1 1 s)) = (\<not> paused s)
      \<and> fullscreen (timer_fires t (Suc (next_timer s)) (pointerdown_mouse now1 1 s)) = fullscreen s
      \<and> pending TogglePaused (timer_fires t (Suc (next_timer s)) (pointerdown_mouse now1 1 s)) = [])"
proof -
  let ?dcd = "doubleClickDuration (options s)"
  let ?s1 = "pointerdown_mouse now1 (Suc 0) s"
  let ?tm = "\<lparr> tid = Suc (next_timer s), due = now1 + ?dcd, callback = TogglePaused \<rparr>"
  have A: "now - lastClickTime s \<le> ?dcd \<longrightarrow>
        calls (pointerdown_mouse now (Suc 0) s) = calls s @ [ToggleFullscreen]
      \<and> fullscreen (pointerdown_mouse now (Suc 0) s) = (\<not> fullscreen s)
      \<and> paused (pointerdown_mouse now (Suc 0) s) = paused s
      \<and> pending TogglePaused (pointerdown_mouse now (Suc 0) s) = []"
    using double_click[OF ok, of now] by blast
  have ok1: "timers_ok ?s1" using ok by (rule timers_ok_pointerdown_mouse)
  have B: "?dcd < now1 - lastClickTime s \<and> now2 - now1 \<le> ?dcd \<longrightarrow>
        calls (pointerdown_mouse now2 (Suc 0) ?s1) = calls s @ [ToggleFullscreen]
      \<and> fullscreen (pointerdown_mouse now2 (Suc 0) ?s1) = (\<not> fullscreen s)
      \<and> paused (pointerdown_mouse now2 (Suc 0) ?s1) = paused s
      \<and> pending TogglePaused (pointerdown_mouse now2 (Suc 0) ?s1) = []"
  proof (intro impI, elim conjE)
    assume far: "?dcd < now1 - lastClickTime s" and near: "now2 - now1 \<le> ?dcd"
    note s1 = single_click[OF ok far]
    have near': "now2 - lastClickTime ?s1 \<le> doubleClickDuration (options ?s1)"
      using near by (simp add: s1(5,6))
    note s2 = double_click[OF ok1 near']
    show "calls (pointerdown_mouse now2 (Suc 0) ?s1) = calls s @ [ToggleFullscreen]
      \<and> fullscreen (pointerdown_mouse now2 (Suc 0) ?s1) = (\<not> fullscreen s)
      \<and> paused (pointerdown_mouse now2 (Suc 0) ?s1) = paused s
      \<and> pending TogglePaused (pointerdown_mouse now2 (Suc 0) ?s1) = []"
      by (simp add: s2(1-4) s1(1-3))
  qed
  have C: "?dcd < now1 - lastClickTime s \<longrightarrow>
        calls ?s1 = calls s \<and> pending TogglePaused ?s1 = [?tm]"
    using single_click(1,4)[OF ok, of now1] by blast
  have D: "?dcd < now1 - lastClickTime s \<and> t < now1 + ?dcd \<longrightarrow>
        timer_fires t (Suc (next_timer s)) ?s1 = ?s1"
    using single_click(7)[OF ok, of now1] by (auto simp: timer_fires_def)
  have E: "?dcd < now1 - lastClickTime s \<and> now1 + ?dcd \<le> t \<longrightarrow>
        calls (timer_fires t (Suc (next_timer s)) ?s1) = calls s @ [TogglePausedCall]
      \<and> paused (timer_fires t (Suc (next_timer s)) ?s1) = (\<not> paused s)
      \<and> fullscreen (timer_fires t (Suc (next_timer s)) ?s1) = fullscreen s
      \<and> pending TogglePaused (timer_fires t (Suc (next_timer s)) ?s1) = []"
  proof (intro impI, elim conjE)
    assume far: "?dcd < now1 - lastClickTime s" and due: "now1 + ?dcd \<le> t"
    note s1 = single_click[OF ok far]
    have d: "due ?tm \<le> t" using due by simp
    have c: "callback ?tm = TogglePaused" by simp
    note f = deferred_toggle_fires[OF s1(7) c d s1(4)]
    show "calls (timer_fires t (Suc (next_timer s)) ?s1) = calls s @ [TogglePausedCall]
      \<and> paused (timer_fires t (Suc (next_timer s)) ?s1) = (\<not> paused s)
      \<and> fullscreen (timer_fires t (Suc (next_timer s)) ?s1) = fullscreen s
      \<and> pending TogglePaused (timer_fires t (Suc (next_timer s)) ?s1) = []"
      by (simp add: f s1(1-3))
  qed
  from A B C D E show ?thesis by (simp only: One_nat_def)
qed

theorem mouse_click_classifier_witness:
  "timers_ok (connectedCallback 0 (constructed 100 0 1000))
   \<and> doubleClickDuration (options (connectedCallback 0 (constructed 100 0 1000)))
        < 1000 - lastClickTime (connectedCallback 0 (constructed 100 0 1000))
   \<and> (1200::int) - 1000 \<le> doubleClickDuration (options (connectedCallback 0 (constructed 100 0 1000)))
   \<and> calls (pointerdown_mouse 1200 1 (pointerdown_mouse 1000 1 (connectedCallback 0 (constructed 100 0 1000))))
        = [ToggleFullscreen]
   \<and> pending TogglePaused (pointerdown_mouse 1200 1 (pointerdown_mouse 1000 1 (connectedCallback 0 (constructed 100 0 1000)))) = []
   \<and> calls (timer_fires 1250 3 (pointerdown_mouse 1000 1 (connectedCallback 0 (constructed 100 0 1000))))
        = [TogglePausedCall]
   \<and> \<not> paused (timer_fires 1250 3 (pointerdown_mouse 1000 1 (connectedCallback 0 (constructed 100 0 1000))))"
proof -
  have a: "options (connectedCallback 0 (constructed 100 0 1000)) = default_options"
    "lastClickTime (connectedCallback 0 (constructed 100 0 1000)) = 0"
    "calls (connectedCallback 0 (constructed 100 0 1000)) = []"
    "paused (connectedCallback 0 (constructed 100 0 1000))"
    "next_timer (connectedCallback 0 (constructed 100 0 1000)) = 2"
    by (simp_all add: connectedCallback_def updatePaused_def updateHideControls_fields
        updateHideControls_timers constructed_def)
  have d: "doubleClickDuration default_options = 250" by (simp add: default_options_def)
  show ?thesis
    using mouse_click_classifier[OF timers_ok_connected[of 0 100 0 1000], of 1200 1000 1200 1250]
    by (simp add: a d timers_ok_connected numeral_3_eq_3)
qed

text \<open>
  C6, as the claim states it for every sequence of contact-downs, fails: the handler
  measures the threshold from the last contact-down that armed the deferred action, not
  from the previous contact-down. With contact-downs at 1000, 1200 and 1400 ms, the
  second toggles fullscreen; the third comes 200 ms after the second, within the
  threshold of 250 ms, and yet toggles no fullscreen and arms the deferred action, which
  toggles paused at 1650 ms.
\<close>

theorem triple_click_counterexample:
  "calls (run [(1000, PointerDown Mouse 1 500), (1200, PointerDown Mouse 1 500)]
            (connectedCallback 0 (constructed 100 0 1000))) = [ToggleFullscreen]
   \<and> (1400::int) - 1200 \<le> doubleClickDuration default_options
   \<and> calls (run [(1000, PointerDown Mouse 1 500), (1200, PointerDown Mouse 1 500),
                 (1400, PointerDown Mouse 1 500)]
            (connectedCallback 0 (constructed 100 0 1000))) = [ToggleFullscreen]
   \<and> calls (run [(1000, PointerDown Mouse 1 500), (1200, PointerDown Mouse 1 500),
                 (1400, PointerDown Mouse 1 500), (1650, TimerFires 6)]
            (connectedCallback 0 (constructed 100 0 1000))) = [ToggleFullscreen, TogglePausedCall]"
  by (simp add: player_eval)

subsection \<open>The position stays within the duration\<close>

lemma video_ok_seek:
  "0 \<le> D \<Longrightarrow> duration (videoElement s) = D \<Longrightarrow> video_ok D (s\<lparr> videoElement := seek t (videoElement s) \<rparr>)"
  by (simp add: video_ok_def time_in_range_def seek_def clamp_def)

lemma video_ok_cong:
  "currentTime (videoElement s') = currentTime (videoElement s) \<Longrightarrow>
   duration (videoElement s') = duration (videoElement s) \<Longrightarrow> video_ok D s' = video_ok D s"
  by (simp add: video_ok_def time_in_range_def)

lemma video_ok_updateHideControls: "video_ok D (updateHideControls now s) = video_ok D s"
  by (rule video_ok_cong) (simp_all add: updateHideControls_fields)

lemma video_ok_clearTimeout: "video_ok D (clearTimeout h s) = video_ok D s"
  by (rule video_ok_cong) simp_all

lemma video_ok_togglePaused: "video_ok D (togglePaused now s) = video_ok D s"
  by (simp add: togglePaused_def set_paused_def updatePaused_def video_ok_updateHideControls)
     (simp add: video_ok_def time_in_range_def)

lemma video_ok_set_paused: "video_ok D (set_paused v now s) = video_ok D s"
  by (simp add: set_paused_def updatePaused_def video_ok_updateHideControls)
     (simp add: video_ok_def time_in_range_def)

lemma video_ok_toggleFullscreen: "video_ok D (toggleFullscreen s) = video_ok D s"
  by (simp add: video_ok_def time_in_range_def toggleFullscreen_def set_fullscreen_def)

lemma video_ok_tapToggleOverlay: "video_ok D (tapToggleOverlay now s) = video_ok D s"
  by (simp add: tapToggleOverlay_def video_ok_updateHideControls)
     (simp add: video_ok_def time_in_range_def)

lemma video_ok_pointerdown_mouse: "video_ok D (pointerdown_mouse now b s) = video_ok D s"
  by (simp add: pointerdown_mouse_def Let_def setTimeout_def video_ok_toggleFullscreen
        video_ok_clearTimeout video_ok_updateHideControls)
     (simp add: video_ok_def time_in_range_def updateHideControls_fields)

lemma video_ok_pointerdown_touch:
  assumes "0 \<le> D" "video_ok D s"
  shows "video_ok D (pointerdown_touch now cx s)"
proof -
  have d: "duration (videoElement (clearTimeout (tapJumpTimeout_id s) s)) = D"
    using assms(2) by (simp add: video_ok_def)
  have j: "video_ok D (clearTimeout (tapJumpTimeout_id s) s
      \<lparr> videoElement := seek t (videoElement s), lastTapTime := now \<rparr>)" for t
    using video_ok_seek[OF assms(1) d, of t] by (simp add: video_ok_def time_in_range_def)
  have a: "video_ok D (case setTimeout TapToggleOverlay dl now
        (clearTimeout (tapJumpTimeout_id s) s\<lparr> lastTapTime := now \<rparr>)
      of (i, s') \<Rightarrow> s'\<lparr> tapJumpTimeout_id := Some i \<rparr>)" for dl
    using assms(2) by (simp add: setTimeout_def video_ok_def time_in_range_def)
  show ?thesis
    unfolding pointerdown_touch_cases Let_def
    using j a assms(2) by (simp add: video_ok_tapToggleOverlay video_ok_clearTimeout)
qed

lemma video_ok_pointerup: "video_ok D (pointerup now p s) = video_ok D s"
  by (simp add: pointerup_def setTimeout_def video_ok_def time_in_range_def)

lemma video_ok_keydown:
  assumes "0 \<le> D" "video_ok D s"
  shows "video_ok D (keydown now k bf s)"
proof -
  define s1 where "s1 = updateHideControls now s"
  have ok1: "video_ok D s1" using assms(2) by (simp add: s1_def video_ok_updateHideControls)
  then have d: "duration (videoElement s1) = D" by (simp add: video_ok_def)
  have misc: "video_ok D (toggleMute s1)" "video_ok D (toggleSubtitles s1)"
    "video_ok D (set_fullscreen False s1)"
    using ok1 by (simp_all add: video_ok_def time_in_range_def toggleMute_def toggleSubtitles_def
        set_fullscreen_def)
  show ?thesis
    unfolding keydown_def Let_def s1_def[symmetric]
    using ok1 misc video_ok_seek[OF assms(1) d]
    by (simp add: video_ok_togglePaused video_ok_toggleFullscreen)
qed

lemma video_ok_run_callback: "video_ok D (run_callback cb now s) = video_ok D s"
  by (cases cb)
     (simp_all add: run_callback_def video_ok_togglePaused video_ok_tapToggleOverlay,
      simp_all add: video_ok_def time_in_range_def hideControls_fires_def)

lemma video_ok_timer_fires: "video_ok D (timer_fires now i s) = video_ok D s"
  by (simp add: timer_fires_def video_ok_run_callback split: option.splits)
     (simp add: video_ok_def time_in_range_def)

lemma video_ok_handle:
  assumes "0 \<le> D" "video_ok D s"
  shows "video_ok D (handle now e s)"
proof (cases e)
  case (PointerMove p)
  then show ?thesis using assms by (simp add: pointermove_def video_ok_updateHideControls)
next
  case (PointerDown p b cx)
  then show ?thesis
    using assms by (simp add: pointerdown_def video_ok_pointerdown_mouse video_ok_pointerdown_touch)
next
  case (PointerUp p)
  then show ?thesis using assms by (simp add: video_ok_pointerup)
next
  case (KeyDown k bf)
  then show ?thesis using assms by (simp add: video_ok_keydown)
next
  case (TimeChange t)
  have "duration (videoElement s) = D" using assms(2) by (simp add: video_ok_def)
  from video_ok_seek[OF assms(1) this] assms(2) show ?thesis
    unfolding TimeChange by (cases t) (simp_all only: handle_TimeChange)
next
  case (PreviewTimeChange t)
  then show ?thesis using assms
    by (simp add: video_ok_def time_in_range_def on_previewtimechange_def)
next
  case (SeekingChange b)
  have "video_ok D (s\<lparr> videoElement := (videoElement s)\<lparr> video_paused := (b \<or> paused s) \<rparr> \<rparr>)"
    using assms(2) by (simp add: video_ok_def time_in_range_def)
  with SeekingChange show ?thesis
    by (simp add: on_seekingchange_def video_ok_updateHideControls)
next
  case Ended
  have "video_ok D (s\<lparr> ended := True \<rparr>)"
    using assms(2) by (simp add: video_ok_def time_in_range_def)
  with Ended show ?thesis
    by (simp add: on_ended_def video_ok_updateHideControls video_ok_set_paused)
next
  case TimeUpdate
  then show ?thesis using assms by (simp add: video_ok_def time_in_range_def on_timeupdate_def)
next
  case ClickPlayPause
  then show ?thesis using assms by (simp add: video_ok_togglePaused)
next
  case ClickMute
  then show ?thesis using assms by (simp add: video_ok_def time_in_range_def toggleMute_def)
next
  case ClickFullscreen
  then show ?thesis using assms by (simp add: video_ok_toggleFullscreen)
next
  case ClickSubtitles
  then show ?thesis using assms by (simp add: video_ok_def time_in_range_def toggleSubtitles_def)
next
  case (TimerFires i)
  then show ?thesis using assms by (simp add: video_ok_timer_fires)
qed

lemma video_ok_run: "0 \<le> D \<Longrightarrow> video_ok D s \<Longrightarrow> video_ok D (run es s)"
  by (induction es arbitrary: s) (auto simp: video_ok_handle)

lemma video_ok_connected: "0 \<le> d \<Longrightarrow> video_ok d (connectedCallback now (constructed d l w))"
proof -
  assume d: "0 \<le> d"
  have "video_ok d (constructed d l w)"
    using d by (simp add: video_ok_def time_in_range_def constructed_def)
  then have "video_ok d (updateHideControls now (constructed d l w))"
    by (simp add: video_ok_updateHideControls)
  then have "video_ok d ((updateHideControls now (constructed d l w))
      \<lparr> videoElement := (videoElement (updateHideControls now (constructed d l w)))
            \<lparr> video_paused := paused (updateHideControls now (constructed d l w)) \<rparr> \<rparr>)"
    by (simp add: video_ok_def time_in_range_def)
  then show ?thesis
    by (simp add: connectedCallback_def updatePaused_def video_ok_updateHideControls)
qed

lemma seek_currentTime: "currentTime (seek t v) = clamp 0 t (duration v)"
  by (simp add: seek_def)

lemma keydown_seek:
  "currentTime (videoElement (keydown now ''ArrowLeft'' bf s))
     = clamp 0 (currentTime (videoElement s) - 5) (duration (videoElement s))"
  "currentTime (videoElement (keydown now ''ArrowRight'' bf s))
     = clamp 0 (currentTime (videoElement s) + 5) (duration (videoElement s))"
  "currentTime (videoElement (keydown now ''j'' bf s))
     = clamp 0 (currentTime (videoElement s) - 10) (duration (videoElement s))"
  "currentTime (videoElement (keydown now ''l'' bf s))
     = clamp 0 (currentTime (videoElement s) + 10) (duration (videoElement s))"
  by (simp_all add: keydown_def Let_def seek_currentTime updateHideControls_fields)

lemma tap_direction_values:
  "tap_direction cx s = ''l'' \<or> tap_direction cx s = ''r'' \<or> tap_direction cx s = []"
  by (simp add: tap_direction_def Let_def)

lemma tap_direction_cong:
  "offsetLeft s' = offsetLeft s \<Longrightarrow> offsetWidth s' = offsetWidth s \<Longrightarrow> options s' = options s \<Longrightarrow>
   tap_direction cx s' = tap_direction cx s"
  unfolding tap_direction_def by (simp only:)

lemma tap_direction_zones:
  assumes "0 < offsetWidth s"
  shows "tap_direction cx s =
     (if (cx - offsetLeft s) / offsetWidth s \<le> doubleTapJumpScreenPortion (options s) then ''l''
      else if 1 - doubleTapJumpScreenPortion (options s) \<le> (cx - offsetLeft s) / offsetWidth s then ''r''
      else [])"
  using assms by (simp add: tap_direction_def Let_def js_le_def)

lemma clearTimeout_more_fields [simp]:
  "offsetLeft (clearTimeout h s) = offsetLeft s"
  "offsetWidth (clearTimeout h s) = offsetWidth s"
  by (cases h; simp add: clearTimeout_def)+

lemma touch_jump:
  assumes ok: "timers_ok s" and dir: "tap_direction cx s \<noteq> []"
    and near: "now - lastTapTime s \<le> doubleTapJumpDuration (options s)"
  shows "currentTime (videoElement (pointerdown_touch now cx s))
           = clamp 0 (currentTime (videoElement s)
                       + (if tap_direction cx s = ''r'' then doubleTapJumpDistance (options s)
                          else - doubleTapJumpDistance (options s)))
               (duration (videoElement s))"
    "controls_hidden (pointerdown_touch now cx s) = controls_hidden s"
    "pending TapToggleOverlay (pointerdown_touch now cx s) = []"
proof -
  have p: "pending TapToggleOverlay (clearTimeout (tapJumpTimeout_id s) s) = []"
    using ok by (rule pending_after_clear_tap)
  show "currentTime (videoElement (pointerdown_touch now cx s))
           = clamp 0 (currentTime (videoElement s)
                       + (if tap_direction cx s = ''r'' then doubleTapJumpDistance (options s)
                          else - doubleTapJumpDistance (options s)))
               (duration (videoElement s))"
    using dir near by (simp add: pointerdown_touch_cases Let_def seek_currentTime)
  show "controls_hidden (pointerdown_touch now cx s) = controls_hidden s"
    using dir near by (simp add: pointerdown_touch_cases Let_def)
  show "pending TapToggleOverlay (pointerdown_touch now cx s) = []"
    using dir near p by (simp add: pointerdown_touch_cases Let_def pending_def)
qed

lemma touch_zone_contact:
  assumes dir: "tap_direction cx s \<noteq> []"
  shows "lastTapTime (pointerdown_touch now cx s) = now"
    "options (pointerdown_touch now cx s) = options s"
    "offsetLeft (pointerdown_touch now cx s) = offsetLeft s"
    "offsetWidth (pointerdown_touch now cx s) = offsetWidth s"
    "duration (videoElement (pointerdown_touch now cx s)) = duration (videoElement s)"
  using dir by (simp_all add: pointerdown_touch_cases Let_def setTimeout_def seek_def)

lemma touch_centre:
  assumes dir: "tap_direction cx s = []"
  shows "videoElement (pointerdown_touch now cx s) = videoElement s"
  using dir by (simp add: pointerdown_touch_cases Let_def tapToggleOverlay_def updateHideControls_fields)

text \<open>
  C7, as the claim states it, fails for one operation: a scrub time-change need not be a
  finite number. With a known duration of 100 and a seek bar of zero width the scrub
  pipeline emits \<open>Infinity\<close>, and the media element refuses that request with a
  \<open>TypeError\<close> instead of clamping it; the position stays where it was.
\<close>

theorem nonfinite_timechange_counterexample:
  "duration (videoElement (connectedCallback 0 (constructed 100 0 1000))) = 100
   \<and> updateScrubbing True (Num 100) 150 100 0 = Some PosInf
   \<and> on_timechange PosInf (connectedCallback 0 (constructed 100 0 1000)) = Inl TypeError
   \<and> handle 5 (TimeChange PosInf) (connectedCallback 0 (constructed 100 0 1000))
        = connectedCallback 0 (constructed 100 0 1000)"
  by (simp add: on_timechange_def set_currentTime_def updateScrubbing_def connectedCallback_def
      updatePaused_def updateHideControls_fields constructed_def)

text \<open>
  C7, amended. With a known duration \<open>\<ge> 0\<close> and the position within it, every handler
  of the session, a time-change of any time included, leaves the position within
  \<open>[0, duration]\<close> and the duration as it was, and so does every sequence of events.
  A seek request that is a finite number is never rejected and sets the position to the
  request clamped to \<open>[0, duration]\<close>: the scrub time-change to a finite \<open>t\<close>, the
  keyboard seeks of 5 and 10 seconds and the tap jump. The clamp is that of the media
  element's seek.
\<close>

theorem seeks_stay_in_range:
  assumes D: "0 \<le> duration (videoElement s)" and inv: "time_in_range s"
  shows "time_in_range (handle now e s)
     \<and> duration (videoElement (handle now e s)) = duration (videoElement s)
     \<and> on_timechange (Num t) s = Inr (s\<lparr> videoElement := seek t (videoElement s) \<rparr>)
     \<and> currentTime (videoElement (handle now (TimeChange (Num t)) s))
         = clamp 0 t (duration (videoElement s))
     \<and> currentTime (videoElement (handle now (KeyDown ''ArrowLeft'' bf) s))
         = clamp 0 (currentTime (videoElement s) - 5) (duration (videoElement s))
     \<and> currentTime (videoElement (handle now (KeyDown ''ArrowRight'' bf) s))
         = clamp 0 (currentTime (videoElement s) + 5) (duration (videoElement s))
     \<and> currentTime (videoElement (handle now (KeyDown ''j'' bf) s))
         = clamp 0 (currentTime (videoElement s) - 10) (duration (videoElement s))
     \<and> currentTime (videoElement (handle now (KeyDown ''l'' bf) s))
         = clamp 0 (currentTime (videoElement s) + 10) (duration (videoElement s))
     \<and> (tap_direction cx s \<noteq> [] \<and> now - lastTapTime s \<le> doubleTapJumpDuration (options s) \<longrightarrow>
          currentTime (videoElement (handle now (PointerDown Touch b cx) s))
            = clamp 0 (currentTime (videoElement s)
                        + (if tap_direction cx s = ''r'' then doubleTapJumpDistance (options s)
                           else - doubleTapJumpDistance (options s)))
                (duration (videoElement s)))
     \<and> time_in_range (run es s)"
proof -
  have v: "video_ok (duration (videoElement s)) s" using inv by (simp add: video_ok_def)
  have h: "video_ok (duration (videoElement s)) (handle now e s)"
    using D v by (rule video_ok_handle)
  have r: "video_ok (duration (videoElement s)) (run es s)"
    using D v by (rule video_ok_run)
  have tap: "tap_direction cx s \<noteq> [] \<and> now - lastTapTime s \<le> doubleTapJumpDuration (options s) \<longrightarrow>
          currentTime (videoElement (handle now (PointerDown Touch b cx) s))
            = clamp 0 (currentTime (videoElement s)
                        + (if tap_direction cx s = ''r'' then doubleTapJumpDistance (options s)
                           else - doubleTapJumpDistance (options s)))
                (duration (videoElement s))"
    by (simp add: pointerdown_def pointerdown_touch_cases Let_def seek_currentTime)
  have tc: "currentTime (videoElement (handle now (TimeChange (Num t)) s))
         = clamp 0 t (duration (videoElement s))"
    by (simp add: on_timechange_def set_currentTime_def seek_currentTime)
  have nr: "on_timechange (Num t) s = Inr (s\<lparr> videoElement := seek t (videoElement s) \<rparr>)"
    by (simp add: on_timechange_def set_currentTime_def)
  from h r tap tc nr keydown_seek[of now bf s] show ?thesis
    by (simp add: video_ok_def)
qed

theorem seeks_stay_in_range_witness:
  "(0::real) \<le> duration (videoElement (connectedCallback 0 (constructed 100 0 1000)))
   \<and> time_in_range (connectedCallback 0 (constructed 100 0 1000))
   \<and> currentTime (videoElement (handle 5 (TimeChange (Num 150)) (connectedCallback 0 (constructed 100 0 1000)))) = 100
   \<and> currentTime (videoElement (handle 5 (KeyDown ''ArrowLeft'' False) (connectedCallback 0 (constructed 100 0 1000)))) = 0
   \<and> time_in_range (handle 5 (TimeChange PosInf) (connectedCallback 0 (constructed 100 0 1000)))
   \<and> time_in_range (run [(5, TimeChange (Num 98)), (6, KeyDown ''l'' False), (7, KeyDown ''ArrowLeft'' False)]
                      (connectedCallback 0 (constructed 100 0 1000)))
   \<and> currentTime (videoElement (run [(5, TimeChange (Num 98)), (6, KeyDown ''l'' False), (7, KeyDown ''ArrowLeft'' False)]
                      (connectedCallback 0 (constructed 100 0 1000)))) = 95"
proof -
  have a: "videoElement (connectedCallback 0 (constructed 100 0 1000))
      = \<lparr> currentTime = 0, duration = 100, video_paused = True, video_muted = False \<rparr>"
    by (simp add: connectedCallback_def updatePaused_def updateHideControls_fields
        updateHideControls_timers constructed_def)
  have b: "time_in_range (connectedCallback 0 (constructed 100 0 1000))"
    by (simp add: time_in_range_def a)
  have c: "currentTime (videoElement (run [(5, TimeChange (Num 98)), (6, KeyDown ''l'' False), (7, KeyDown ''ArrowLeft'' False)]
                      (connectedCallback 0 (constructed 100 0 1000)))) = 95"
    by (simp add: keydown_seek on_timechange_def set_currentTime_def seek_currentTime a clamp_def
        keydown_def Let_def updateHideControls_fields seek_def)
  show ?thesis
    using seeks_stay_in_range[of "connectedCallback 0 (constructed 100 0 1000)" 5 "TimeChange (Num 150)" 150 False 0 0
        "[(5, TimeChange (Num 98)), (6, KeyDown ''l'' False), (7, KeyDown ''ArrowLeft'' False)]"]
      seeks_stay_in_range[of "connectedCallback 0 (constructed 100 0 1000)" 5 "TimeChange PosInf" 150 False 0 0 "[]"]
      b c
    by (simp add: a clamp_def on_timechange_def set_currentTime_def)
qed

subsection \<open>Touch contacts\<close>

text \<open>
  C8, amended. In every state that satisfies the timer invariant: a touch contact in a
  jump zone within the jump threshold of the previous jump-zone contact, whichever jump
  zone that one was in, performs a seek jump of the configured distance, backwards when
  the new contact is in the left zone and forwards when it is in the right zone; it does
  not change the visibility of the overlay and leaves no deferred overlay toggle
  pending. A contact in the centre zone never changes the position. The zones are the
  left and the right portion of the width of the player.
\<close>

theorem touch_tap_classifier:
  assumes ok: "timers_ok s"
  shows
   "(tap_direction cx s \<noteq> [] \<and> now - lastTapTime s \<le> doubleTapJumpDuration (options s) \<longrightarrow>
        currentTime (videoElement (pointerdown now Touch b cx s))
          = clamp 0 (currentTime (videoElement s)
                      + (if tap_direction cx s = ''r'' then doubleTapJumpDistance (options s)
                         else - doubleTapJumpDistance (options s)))
              (duration (videoElement s))
      \<and> controls_hidden (pointerdown now Touch b cx s) = controls_hidden s
      \<and> pending TapToggleOverlay (pointerdown now Touch b cx s) = [])
    \<and> (tap_direction cx1 s \<noteq> [] \<and> tap_direction cx2 s \<noteq> []
        \<and> now2 - now1 \<le> doubleTapJumpDuration (options s) \<longrightarrow>
        currentTime (videoElement (pointerdown now2 Touch b cx2 (pointerdown now1 Touch b cx1 s)))
          = clamp 0 (currentTime (videoElement (pointerdown now1 Touch b cx1 s))
                      + (if tap_direction cx2 s = ''r'' then doubleTapJumpDistance (options s)
                         else - doubleTapJumpDistance (options s)))
              (duration (videoElement s))
      \<and> controls_hidden (pointerdown now2 Touch b cx2 (pointerdown now1 Touch b cx1 s))
          = controls_hidden (pointerdown now1 Touch b cx1 s)
      \<and> pending TapToggleOverlay (pointerdown now2 Touch b cx2 (pointerdown now1 Touch b cx1 s)) = [])
    \<and> (tap_direction cx s = [] \<longrightarrow>
        videoElement (pointerdown now Touch b cx s) = videoElement s)
    \<and> (tap_direction cx s = ''l'' \<or> tap_direction cx s = ''r'' \<or> tap_direction cx s = [])
    \<and> (0 < offsetWidth s \<longrightarrow>
        tap_direction cx s =
          (if (cx - offsetLeft s) / offsetWidth s \<le> doubleTapJumpScreenPortion (options s) then ''l''
           else if 1 - doubleTapJumpScreenPortion (options s) \<le> (cx - offsetLeft s) / offsetWidth s
           then ''r'' else []))"
proof -
  let ?s1 = "pointerdown_touch now1 cx1 s"
  have A: "tap_direction cx s \<noteq> [] \<and> now - lastTapTime s \<le> doubleTapJumpDuration (options s) \<longrightarrow>
        currentTime (videoElement (pointerdown_touch now cx s))
          = clamp 0 (currentTime (videoElement s)
                      + (if tap_direction cx s = ''r'' then doubleTapJumpDistance (options s)
                         else - doubleTapJumpDistance (options s)))
              (duration (videoElement s))
      \<and> controls_hidden (pointerdown_touch now cx s) = controls_hidden s
      \<and> pending TapToggleOverlay (pointerdown_touch now cx s) = []"
    using touch_jump[OF ok, of cx now] by blast
  have ok1: "timers_ok ?s1" using ok by (rule timers_ok_pointerdown_touch)
  have B: "tap_direction cx1 s \<noteq> [] \<and> tap_direction cx2 s \<noteq> []
        \<and> now2 - now1 \<le> doubleTapJumpDuration (options s) \<longrightarrow>
        currentTime (videoElement (pointerdown_touch now2 cx2 ?s1))
          = clamp 0 (currentTime (videoElement ?s1)
                      + (if tap_direction cx2 s = ''r'' then doubleTapJumpDistance (options s)
                         else - doubleTapJumpDistance (options s)))
              (duration (videoElement s))
      \<and> controls_hidden (pointerdown_touch now2 cx2 ?s1) = controls_hidden ?s1
      \<and> pending TapToggleOverlay (pointerdown_touch now2 cx2 ?s1) = []"
  proof (intro impI, elim conjE)
    assume d1: "tap_direction cx1 s \<noteq> []" and d2: "tap_direction cx2 s \<noteq> []"
      and near: "now2 - now1 \<le> doubleTapJumpDuration (options s)"
    note z = touch_zone_contact[OF d1, of now1]
    have dir: "tap_direction cx2 ?s1 = tap_direction cx2 s"
      by (rule tap_direction_cong) (simp_all add: z)
    have d2': "tap_direction cx2 ?s1 \<noteq> []" using d2 dir by simp
    have near': "now2 - lastTapTime ?s1 \<le> doubleTapJumpDuration (options ?s1)"
      using near by (simp add: z)
    note j = touch_jump[OF ok1 d2' near']
    show "currentTime (videoElement (pointerdown_touch now2 cx2 ?s1))
          = clamp 0 (currentTime (videoElement ?s1)
                      + (if tap_direction cx2 s = ''r'' then doubleTapJumpDistance (options s)
                         else - doubleTapJumpDistance (options s)))
              (duration (videoElement s))
      \<and> controls_hidden (pointerdown_touch now2 cx2 ?s1) = controls_hidden ?s1
      \<and> pending TapToggleOverlay (pointerdown_touch now2 cx2 ?s1) = []"
      using j by (simp add: dir z)
  qed
  have C: "tap_direction cx s = [] \<longrightarrow> videoElement (pointerdown_touch now cx s) = videoElement s"
    using touch_centre[of cx s now] by blast
  have E: "0 < offsetWidth s \<longrightarrow>
        tap_direction cx s =
          (if (cx - offsetLeft s) / offsetWidth s \<le> doubleTapJumpScreenPortion (options s) then ''l''
           else if 1 - doubleTapJumpScreenPortion (options s) \<le> (cx - offsetLeft s) / offsetWidth s
           then ''r'' else [])"
    using tap_direction_zones[of s cx] by blast
  have pd: "pointerdown n Touch b c x = pointerdown_touch n c x" for n c x
    by (simp add: pointerdown_def)
  from A B C E tap_direction_values[of cx s] show ?thesis
    unfolding pd by blast
qed

theorem touch_tap_classifier_witness:
  "timers_ok (handle 0 (TimeChange (Num 50)) (connectedCallback 0 (constructed 100 0 1000)))
   \<and> tap_direction 900 (handle 0 (TimeChange (Num 50)) (connectedCallback 0 (constructed 100 0 1000))) = ''r''
   \<and> tap_direction 500 (handle 0 (TimeChange (Num 50)) (connectedCallback 0 (constructed 100 0 1000))) = []
   \<and> (1100::int) - 1000 \<le> doubleTapJumpDuration (options (handle 0 (TimeChange (Num 50)) (connectedCallback 0 (constructed 100 0 1000))))
   \<and> currentTime (videoElement (pointerdown 1100 Touch 0 900 (pointerdown 1000 Touch 0 900
         (handle 0 (TimeChange (Num 50)) (connectedCallback 0 (constructed 100 0 1000)))))) = 55
   \<and> pending TapToggleOverlay (pointerdown 1100 Touch 0 900 (pointerdown 1000 Touch 0 900
         (handle 0 (TimeChange (Num 50)) (connectedCallback 0 (constructed 100 0 1000))))) = []"
proof -
  let ?s = "handle 0 (TimeChange (Num 50)) (connectedCallback 0 (constructed 100 0 1000))"
  have ok: "timers_ok ?s"
    by (intro timers_ok_handle timers_ok_connected)
  have f: "options ?s = default_options" "offsetLeft ?s = 0" "offsetWidth ?s = 1000"
    "lastTapTime ?s = 0"
    "videoElement ?s = \<lparr> currentTime = 50, duration = 100, video_paused = True, video_muted = False \<rparr>"
    by (simp_all add: handle_TimeChange connectedCallback_def updatePaused_def
        updateHideControls_fields updateHideControls_timers constructed_def seek_def clamp_def
        del: handle.simps)
  have d: "tap_direction 900 ?s = ''r''" "tap_direction 500 ?s = []"
    by (simp_all add: tap_direction_def Let_def js_le_def f default_options_def del: handle.simps)
  have far: "\<not> (1000 - lastTapTime ?s \<le> doubleTapJumpDuration (options ?s))"
    by (simp add: f default_options_def del: handle.simps)
  have first: "currentTime (videoElement (pointerdown 1000 Touch 0 900 ?s)) = 50"
    using d(1) far
    by (simp add: pointerdown_def pointerdown_touch_cases Let_def setTimeout_def f del: handle.simps)
  show ?thesis
    using touch_tap_classifier[OF ok, of 900 1100 0 900 900 1100 1000] ok d first
    by (simp add: f default_options_def clamp_def del: handle.simps)
qed

text \<open>
  C8, as the claim states it, fails in its last part: the handler remembers the time of
  the previous jump-zone contact, not its zone. A contact in the left zone at 1000 ms
  followed by one in the right zone at 1100 ms, a different zone, jumps from 50 to 55.
\<close>

theorem left_then_right_tap_counterexample:
  "tap_direction 100 (connectedCallback 0 (constructed 100 0 1000)) = ''l''
   \<and> tap_direction 900 (connectedCallback 0 (constructed 100 0 1000)) = ''r''
   \<and> (1100::int) - 1000 \<le> doubleTapJumpDuration default_options
   \<and> currentTime (videoElement (run [(0, TimeChange (Num 50)), (1000, PointerDown Touch 0 100)]
        (connectedCallback 0 (constructed 100 0 1000)))) = 50
   \<and> currentTime (videoElement (run [(0, TimeChange (Num 50)), (1000, PointerDown Touch 0 100),
        (1100, PointerDown Touch 0 900)] (connectedCallback 0 (constructed 100 0 1000)))) = 55"
  by (simp add: player_eval)

end
